theory Spec2Isabelle
  imports Complex_Main "HOL-Library.Multiset" "HOL-Library.Word"
begin

section \<open>Errors and results\<close>

text \<open>
  Every exception the modelled Python can raise is a value: a failed \<open>assert\<close> is
  \<open>AssertionError\<close>, an index outside an axis is \<open>IndexError\<close>, a shape that a
  routine refuses (a negative dimension, a batch of another size, an array that is not
  a stack of square matrices, a reshape to another number of entries) is
  \<open>ValueError\<close>, and operands whose shapes do not fit (matrix product, broadcasting,
  \<open>len\<close> of a 0-d array) are \<open>TypeError\<close>.  A function that can raise returns
  \<open>error + 'a\<close>.
\<close>

datatype error = AssertionError | IndexError | ValueError | TypeError

fun mapM :: "('a \<Rightarrow> error + 'b) \<Rightarrow> 'a list \<Rightarrow> error + 'b list" where
  "mapM f [] = Inr []"
| "mapM f (x # xs) =
     (case f x of
        Inl e \<Rightarrow> Inl e
      | Inr y \<Rightarrow> (case mapM f xs of Inl e \<Rightarrow> Inl e | Inr ys \<Rightarrow> Inr (y # ys)))"

text \<open>A loop that updates a value and stops at the first exception.\<close>

fun foldM :: "('a \<Rightarrow> 'b \<Rightarrow> error + 'b) \<Rightarrow> 'a list \<Rightarrow> 'b \<Rightarrow> error + 'b" where
  "foldM f [] s = Inr s"
| "foldM f (x # xs) s = (case f x s of Inl e \<Rightarrow> Inl e | Inr s' \<Rightarrow> foldM f xs s')"

section \<open>Cross-validation index generator (utilities/cv.py)\<close>

text \<open>\<open>np.arange(n)\<close> for a Python integer: empty when \<open>n \<le> 0\<close>.\<close>

definition arange :: "int \<Rightarrow> int list" where
  "arange n = map int [0..<nat n]"

text \<open>
  \<open>np.delete(a, obj)\<close> on a 1-d array with a scalar integer index: a negative
  index counts from the end, an index outside the axis raises.
\<close>

definition np_delete :: "int list \<Rightarrow> int \<Rightarrow> error + int list" where
  "np_delete a obj =
     (let n = int (length a); j = (if obj < 0 then obj + n else obj)
      in if 0 \<le> j \<and> j < n then Inr (take (nat j) a @ drop (Suc (nat j)) a)
         else Inl IndexError)"

text \<open>
  \<^verbatim>\<open>
  val = np.arange(n_orig)
  train = np.array([np.delete(val, i) for i in val])
  return train, val.reshape(-1, 1)
  \<close>
\<close>

definition loo_train_val :: "int \<Rightarrow> error + (int list list \<times> int list list)" where
  "loo_train_val n_orig =
     (let val = arange n_orig
      in case mapM (np_delete val) val of
           Inl e \<Rightarrow> Inl e
         | Inr train \<Rightarrow> Inr (train, map (\<lambda>v. [v]) val))"

text \<open>Python slices \<open>xs[:k]\<close> and \<open>xs[k:]\<close>: a negative bound counts from the end.\<close>

definition slice_to :: "'a list \<Rightarrow> int \<Rightarrow> 'a list" where
  "slice_to xs k = (if k < 0 then take (nat (int (length xs) + k)) xs else take (nat k) xs)"

definition slice_from :: "'a list \<Rightarrow> int \<Rightarrow> 'a list" where
  "slice_from xs k = (if k < 0 then drop (nat (int (length xs) + k)) xs else drop (nat k) xs)"

text \<open>
  \<^verbatim>\<open>
  p = vmap(random.permutation, (0, None))(random.split(rng, n_splits), n_orig)
  return p[:, :n_train], p[:, n_train:]
  \<close>
  The random source is JAX's: \<open>split\<close> (\<open>random.split\<close>) and \<open>permutation\<close>
  (\<open>random.permutation\<close>) are parameters of the model, over any type of keys.
\<close>

definition cv_train_val ::
  "('k \<Rightarrow> int \<Rightarrow> 'k list) \<Rightarrow> ('k \<Rightarrow> int \<Rightarrow> int list) \<Rightarrow>
   int \<Rightarrow> int \<Rightarrow> int \<Rightarrow> 'k \<Rightarrow> int list list \<times> int list list" where
  "cv_train_val split permutation n_orig n_train n_splits rng =
     (let p = map (\<lambda>key. permutation key n_orig) (split rng n_splits)
      in (map (\<lambda>row. slice_to row n_train) p, map (\<lambda>row. slice_from row n_train) p))"

section \<open>Matrices and the batched kernels (utilities/cv.py)\<close>

text \<open>
  A 2-d array carries its shape, so that an array with no rows still has a number of
  columns; \<open>rows\<close> holds the entries row by row.  Array entries are floating-point
  numbers in the source.  The entries of the data (Gram matrices, selection matrices)
  are finite and are real numbers here; rounding is not modelled.
\<close>

record matrix =
  nrows :: nat
  ncols :: nat
  rows :: "real list list"

definition wf_matrix :: "matrix \<Rightarrow> bool" where
  "wf_matrix A \<longleftrightarrow> length (rows A) = nrows A \<and> list_all (\<lambda>r. length r = ncols A) (rows A)"

definition err_bind :: "error + 'a \<Rightarrow> ('a \<Rightarrow> error + 'b) \<Rightarrow> error + 'b" where
  "err_bind m f = (case m of Inl e \<Rightarrow> Inl e | Inr x \<Rightarrow> f x)"

text \<open>\<open>A @ B\<close>: the inner dimensions have to agree.\<close>

definition matmul :: "matrix \<Rightarrow> matrix \<Rightarrow> error + matrix" where
  "matmul A B =
     (if ncols A = nrows B
      then Inr \<lparr>nrows = nrows A, ncols = ncols B,
                rows = map (\<lambda>row. map (\<lambda>j. \<Sum>k\<leftarrow>[0..<nrows B]. row ! k * rows B ! k ! j)
                                     [0..<ncols B]) (rows A)\<rparr>
      else Inl TypeError)"

text \<open>\<open>A.T\<close>, and \<open>np.swapaxes(_, -1, -2)\<close> on each matrix of a batch.\<close>

definition transpose_m :: "matrix \<Rightarrow> matrix" where
  "transpose_m A =
     \<lparr>nrows = ncols A, ncols = nrows A,
      rows = map (\<lambda>j. map (\<lambda>row. row ! j) (rows A)) [0..<ncols A]\<rparr>"

definition identity :: "nat \<Rightarrow> matrix" where
  "identity n =
     \<lparr>nrows = n, ncols = n,
      rows = map (\<lambda>i. map (\<lambda>j. if i = j then 1 else 0) [0..<n]) [0..<n]\<rparr>"

text \<open>
  The result of a kernel can hold entries that are not finite (\<open>inf\<close>, \<open>nan\<close>).  An
  entry of such an array is \<open>Some\<close> of a real number or \<open>None\<close> for a value that is
  not finite.  A sum or a product with an operand that is not finite is not finite
  (\<open>0 * inf\<close> is \<open>nan\<close>).
\<close>

type_synonym xreal = "real option"

definition xadd :: "xreal \<Rightarrow> xreal \<Rightarrow> xreal" where
  "xadd a b = (case (a, b) of (Some u, Some v) \<Rightarrow> Some (u + v) | _ \<Rightarrow> None)"

definition xmul :: "xreal \<Rightarrow> xreal \<Rightarrow> xreal" where
  "xmul a b = (case (a, b) of (Some u, Some v) \<Rightarrow> Some (u * v) | _ \<Rightarrow> None)"

definition xsum :: "xreal list \<Rightarrow> xreal" where
  "xsum xs = foldr xadd xs (Some 0)"

record xmatrix =
  xnrows :: nat
  xncols :: nat
  xrows :: "xreal list list"

definition of_matrix :: "matrix \<Rightarrow> xmatrix" where
  "of_matrix A = \<lparr>xnrows = nrows A, xncols = ncols A, xrows = map (map Some) (rows A)\<rparr>"

definition xmatmul :: "xmatrix \<Rightarrow> xmatrix \<Rightarrow> error + xmatrix" where
  "xmatmul A B =
     (if xncols A = xnrows B
      then Inr \<lparr>xnrows = xnrows A, xncols = xncols B,
                xrows = map (\<lambda>row. map (\<lambda>j. xsum (map (\<lambda>k. xmul (row ! k) (xrows B ! k ! j))
                                                       [0..<xnrows B]))
                                      [0..<xncols B]) (xrows A)\<rparr>
      else Inl TypeError)"

text \<open>
  \<^verbatim>\<open>
  vinvert = jit(vmap(np.linalg.inv))
  vcholesky = jit(vmap(partial(sp.linalg.cholesky, lower=True)))
  \<close>
  \<open>np\<close> and \<open>sp\<close> are \<open>jax.numpy\<close> and \<open>jax.scipy\<close>: the two kernels are JAX's
  and parameters \<open>linalg_inv\<close> and \<open>cholesky\<close> of the model.  A kernel under \<open>jit\<close>
  is traced on the shapes of its arguments and cannot raise on their values: it
  refuses a matrix that is not square and returns an array for every other input,
  with entries that are not finite where the matrix is singular or not positive
  definite.
\<close>

definition vinvert :: "(matrix \<Rightarrow> xmatrix) \<Rightarrow> matrix list \<Rightarrow> error + xmatrix list" where
  "vinvert linalg_inv batch =
     (if list_all (\<lambda>B. nrows B = ncols B) batch then Inr (map linalg_inv batch) else Inl ValueError)"

definition vcholesky :: "(matrix \<Rightarrow> xmatrix) \<Rightarrow> matrix list \<Rightarrow> error + xmatrix list" where
  "vcholesky cholesky batch =
     (if list_all (\<lambda>B. nrows B = ncols B) batch then Inr (map cholesky batch) else Inl ValueError)"

text \<open>
  \<^verbatim>\<open>
  select_rows = jit(vmap(lambda sel, inp: sel @ inp, (0, None)))
  sym_matmul_fixed_inp = jit(vmap(lambda sel, inp: sel @ inp @ sel.T, (0, None)))
  sym_matmul_variable_inp = jit(vmap(lambda sel, inp: sel @ inp @ sel.T))
  \<close>
  \<open>vmap\<close> over two batched arguments needs batches of one size.  The fixed input is
  the Gram matrix; the variable inputs are results of a kernel.
\<close>

definition select_rows :: "matrix list \<Rightarrow> matrix \<Rightarrow> error + matrix list" where
  "select_rows sels inp = mapM (\<lambda>sel. matmul sel inp) sels"

definition sym_matmul :: "matrix \<Rightarrow> matrix \<Rightarrow> error + matrix" where
  "sym_matmul sel inp = err_bind (matmul sel inp) (\<lambda>x. matmul x (transpose_m sel))"

definition sym_matmul_fixed_inp :: "matrix list \<Rightarrow> matrix \<Rightarrow> error + matrix list" where
  "sym_matmul_fixed_inp sels inp = mapM (\<lambda>sel. sym_matmul sel inp) sels"

definition xsym_matmul :: "matrix \<Rightarrow> xmatrix \<Rightarrow> error + xmatrix" where
  "xsym_matmul sel inp =
     err_bind (xmatmul (of_matrix sel) inp) (\<lambda>x. xmatmul x (of_matrix (transpose_m sel)))"

definition sym_matmul_variable_inp :: "matrix list \<Rightarrow> xmatrix list \<Rightarrow> error + xmatrix list" where
  "sym_matmul_variable_inp sels inps =
     (if length sels = length inps
      then mapM (\<lambda>(sel, inp). xsym_matmul sel inp) (zip sels inps)
      else Inl ValueError)"

section \<open>Selection-matrix builder (utilities/cv.py)\<close>

text \<open>
  The index array is a JAX array of 32-bit signed integers: an entry is a word of 32
  bits, read by \<open>sint\<close>, and \<open>np.sort\<close> orders the entries by their signed values.
\<close>

type_synonym int32 = "32 word"

text \<open>
  \<open>rval.at[split, r, c].set(1.0)\<close> on a batch of matrices.  \<open>split\<close> and \<open>r\<close>
  come from \<open>enumerate\<close>; \<open>c\<close> is an entry of the index array.  JAX's indexed
  update raises an \<open>IndexError\<close> for an index into an axis of size 0; on any other
  axis it counts a negative index from the end and skips an update whose index is
  outside the axis, without raising.
\<close>

definition at_set1 :: "nat \<Rightarrow> real list \<Rightarrow> int32 \<Rightarrow> real \<Rightarrow> error + real list" where
  "at_set1 n row c v =
     (if n = 0 then Inl IndexError
      else let j = (if sint c < 0 then sint c + int n else sint c)
           in Inr (if 0 \<le> j \<and> j < int n then row[nat j := v] else row))"

definition at_set :: "matrix list \<Rightarrow> nat \<Rightarrow> nat \<Rightarrow> int32 \<Rightarrow> real \<Rightarrow> error + matrix list" where
  "at_set rval split r c v =
     (if split < length rval \<and> r < length (rows (rval ! split))
      then (let m = rval ! split
            in err_bind (at_set1 (ncols m) (rows m ! r) c v) (\<lambda>row.
               Inr (rval[split := m\<lparr>rows := (rows m)[r := row]\<rparr>])))
      else Inr rval)"

text \<open>\<open>np.zeros((*idcs.shape, n_orig))\<close>, one zero matrix for each row of \<open>idcs\<close>.\<close>

definition zeros :: "int32 list list \<Rightarrow> nat \<Rightarrow> matrix list" where
  "zeros idcs n =
     map (\<lambda>vi. \<lparr>nrows = length vi, ncols = n,
                rows = replicate (length vi) (replicate n 0)\<rparr>) idcs"

text \<open>
  \<^verbatim>\<open>
  if not idcs_sorted:
      idcs = np.sort(idcs, 1)
  rval = np.zeros((*idcs.shape, n_orig))
  for split, vi in enumerate(idcs):
      for r, c in enumerate(vi):
          rval = rval.at[split, r, c].set(1.0)
  return rval
  \<close>
  \<open>np.zeros\<close> raises on a negative dimension.
\<close>

definition idcs_to_selection_matr ::
  "int \<Rightarrow> int32 list list \<Rightarrow> bool \<Rightarrow> error + matrix list" where
  "idcs_to_selection_matr n_orig idcs idcs_sorted =
     (let idcs = (if \<not> idcs_sorted then map (sort_key sint) idcs else idcs)
      in if n_orig < 0 then Inl ValueError
         else foldM (\<lambda>(split, vi) rval.
                       foldM (\<lambda>(r, c) rval. at_set rval split r c 1) (enumerate 0 vi) rval)
                    (enumerate 0 idcs) (zeros idcs (nat n_orig)))"

section \<open>Submatrix solver (utilities/cv.py)\<close>

text \<open>
  \<^verbatim>\<open>
  train_sel_matr = idcs_to_selection_matr(gram.shape[0], train_idcs)
  rval = vinvert(sym_matmul_fixed_inp(train_sel_matr, gram))
  if zerofill:
      rval = sym_matmul_variable_inp(np.swapaxes(train_sel_matr, -1, -2), rval)
  return rval
  \<close>
\<close>

definition invert_submatr ::
  "(matrix \<Rightarrow> xmatrix) \<Rightarrow> matrix \<Rightarrow> int32 list list \<Rightarrow> bool \<Rightarrow> error + xmatrix list" where
  "invert_submatr linalg_inv gram train_idcs zerofill =
     err_bind (idcs_to_selection_matr (int (nrows gram)) train_idcs False) (\<lambda>train_sel_matr.
     err_bind (sym_matmul_fixed_inp train_sel_matr gram) (\<lambda>sub.
     err_bind (vinvert linalg_inv sub) (\<lambda>rval.
     if zerofill then sym_matmul_variable_inp (map transpose_m train_sel_matr) rval
     else Inr rval)))"

text \<open>
  \<^verbatim>\<open>
  train_sel_matr = idcs_to_selection_matr(gram.shape[0], train_idcs)
  rval = vcholesky(sym_matmul_fixed_inp(train_sel_matr, gram))
  if zerofill:
      rval = sym_matmul_variable_inp(np.swapaxes(train_sel_matr, -1, -2), rval)
  return rval
  \<close>
\<close>

definition cholesky_submatr ::
  "(matrix \<Rightarrow> xmatrix) \<Rightarrow> matrix \<Rightarrow> int32 list list \<Rightarrow> bool \<Rightarrow> error + xmatrix list" where
  "cholesky_submatr cholesky gram train_idcs zerofill =
     err_bind (idcs_to_selection_matr (int (nrows gram)) train_idcs False) (\<lambda>train_sel_matr.
     err_bind (sym_matmul_fixed_inp train_sel_matr gram) (\<lambda>sub.
     err_bind (vcholesky cholesky sub) (\<lambda>rval.
     if zerofill then sym_matmul_variable_inp (map transpose_m train_sel_matr) rval
     else Inr rval)))"

section \<open>Arrays of any rank\<close>

text \<open>
  An n-d array is its shape and its entries in row-major order.  \<open>regul\<close> is turned
  into such an array by \<open>np.array(regul, dtype=np.float32)\<close>; the rounding to single
  precision is not modelled, entries are real numbers.
\<close>

record ndarray =
  shape :: "nat list"
  data :: "real list"

definition nd_size :: "ndarray \<Rightarrow> nat" where
  "nd_size a = prod_list (shape a)"

definition squeeze :: "ndarray \<Rightarrow> ndarray" where
  "squeeze a = a\<lparr>shape := filter (\<lambda>d. d \<noteq> 1) (shape a)\<rparr>"

definition nd_scalar :: "real \<Rightarrow> ndarray" where
  "nd_scalar r = \<lparr>shape = [], data = [r]\<rparr>"

definition nd_of_matrix :: "matrix \<Rightarrow> ndarray" where
  "nd_of_matrix A = \<lparr>shape = [nrows A, ncols A], data = concat (rows A)\<rparr>"

text \<open>\<open>np.eye(n)\<close>.\<close>

definition eye :: "nat \<Rightarrow> ndarray" where
  "eye n = nd_of_matrix (identity n)"

text \<open>
  Broadcasting of two shapes, aligned at their last axes (here on the reversed
  shapes): two axes fit when they are equal or one of them is 1.
\<close>

fun broadcast_rev :: "nat list \<Rightarrow> nat list \<Rightarrow> nat list option" where
  "broadcast_rev [] ys = Some ys"
| "broadcast_rev xs [] = Some xs"
| "broadcast_rev (x # xs) (y # ys) =
     (if x = y \<or> y = 1 then map_option ((#) x) (broadcast_rev xs ys)
      else if x = 1 then map_option ((#) y) (broadcast_rev xs ys)
      else None)"

definition broadcast_shapes :: "nat list \<Rightarrow> nat list \<Rightarrow> nat list option" where
  "broadcast_shapes a b = map_option rev (broadcast_rev (rev a) (rev b))"

text \<open>
  \<open>chunks sz cnt d\<close> cuts \<open>d\<close> into \<open>cnt\<close> blocks of \<open>sz\<close> entries; \<open>expand t s d\<close>
  repeats the entries \<open>d\<close> of an array of shape \<open>s\<close> to the shape \<open>t\<close> of the same
  rank: an axis of length 1 is repeated, any other axis is kept.
\<close>

definition chunks :: "nat \<Rightarrow> nat \<Rightarrow> 'a list \<Rightarrow> 'a list list" where
  "chunks sz cnt d = map (\<lambda>i. take sz (drop (i * sz) d)) [0..<cnt]"

fun expand :: "nat list \<Rightarrow> nat list \<Rightarrow> real list \<Rightarrow> real list" where
  "expand (t # ts) (s # ss) d =
     (if s = 1 then concat (replicate t (expand ts ss d))
      else concat (map (expand ts ss) (chunks (prod_list ss) s d)))"
| "expand ts ss d = d"

definition broadcast_to :: "nat list \<Rightarrow> ndarray \<Rightarrow> real list" where
  "broadcast_to t a = expand t (replicate (length t - length (shape a)) 1 @ shape a) (data a)"

text \<open>An elementwise operation \<open>a * b\<close> or \<open>a + b\<close> with broadcasting.\<close>

definition nd_binop :: "(real \<Rightarrow> real \<Rightarrow> real) \<Rightarrow> ndarray \<Rightarrow> ndarray \<Rightarrow> error + ndarray" where
  "nd_binop f a b =
     (case broadcast_shapes (shape a) (shape b) of
        None \<Rightarrow> Inl TypeError
      | Some sh \<Rightarrow> Inr \<lparr>shape = sh, data = map2 f (broadcast_to sh a) (broadcast_to sh b)\<rparr>)"

text \<open>
  \<open>np.linalg.inv\<close> on an array of rank at least 2 whose last two axes are equal: the
  kernel \<open>linalg_inv\<close> on each matrix of the stack.
\<close>

definition nd_linalg_inv :: "(matrix \<Rightarrow> matrix) \<Rightarrow> ndarray \<Rightarrow> error + ndarray" where
  "nd_linalg_inv linalg_inv a =
     (case rev (shape a) of
        c # r # batch \<Rightarrow>
          if r = c
          then Inr \<lparr>shape = shape a,
                    data = concat (map (\<lambda>ch. concat (rows (linalg_inv
                                               \<lparr>nrows = r, ncols = c, rows = chunks c r ch\<rparr>)))
                                       (chunks (r * c) (prod_list batch) (data a)))\<rparr>
          else Inl ValueError
      | _ \<Rightarrow> Inl ValueError)"

section \<open>Conditional operator constructors (models/conditional_operator.py)\<close>

text \<open>
  The rkhs package of the repository is not among the sources.  Its objects (feature
  vectors, covariance operators, finite operators) are values of one type \<open>'a\<close>, and
  the operations the constructors call are the fields of a record: \<open>len\<close> and
  \<open>inner\<close> of a feature vector, the default regularisation \<open>Cov_regul\<close>, and the
  constructors \<open>CovOp\<close>, \<open>Cov_solve\<close>, \<open>CrossCovOp\<close> and \<open>FiniteOp\<close>.
\<close>

record 'a rkhs =
  len :: "'a \<Rightarrow> nat"
  inner :: "'a \<Rightarrow> ndarray"
  Cov_regul :: "nat \<Rightarrow> nat \<Rightarrow> real"
  CovOp :: "'a \<Rightarrow> 'a"
  Cov_solve :: "'a \<Rightarrow> 'a \<Rightarrow> ndarray option \<Rightarrow> 'a"
  CrossCovOp :: "'a \<Rightarrow> 'a \<Rightarrow> 'a"
  FiniteOp :: "'a \<Rightarrow> 'a \<Rightarrow> ndarray \<Rightarrow> 'a"

text \<open>
  \<^verbatim>\<open>assert regul.squeeze().size == 1 or regul.squeeze().shape[0] == len(inp_feat)\<close>
  The second disjunct is evaluated only when the squeezed array has more than one
  entry or none, and then it has a first axis.
\<close>

definition regul_assert :: "ndarray \<Rightarrow> nat \<Rightarrow> bool" where
  "regul_assert regul n \<longleftrightarrow>
     nd_size (squeeze regul) = 1 \<or>
     (case shape (squeeze regul) of [] \<Rightarrow> False | d # _ \<Rightarrow> d = n)"

text \<open>
  \<^verbatim>\<open>
  if regul is not None:
      regul = np.array(regul, dtype=np.float32)
      assert regul.squeeze().size == 1 or regul.squeeze().shape[0] == len(inp_feat)
  return CrossCovOp(Cov_solve(CovOp(inp_feat), inp_feat, regul=regul), outp_feat)
  \<close>
\<close>

definition Cmo :: "'a rkhs \<Rightarrow> 'a \<Rightarrow> 'a \<Rightarrow> ndarray option \<Rightarrow> error + 'a" where
  "Cmo E inp_feat outp_feat regul =
     (if regul \<noteq> None \<and> \<not> regul_assert (the regul) (len E inp_feat) then Inl AssertionError
      else Inr (CrossCovOp E (Cov_solve E (CovOp E inp_feat) inp_feat regul) outp_feat))"

text \<open>
  \<^verbatim>\<open>
  if regul is None:
      regul = Cov_regul(1, len(inp_feat))
  else:
      regul = np.array(regul, dtype=np.float32)
      assert regul.squeeze().size == 1 or regul.squeeze().shape[0] == len(inp_feat)
  matr = np.linalg.inv(inp_feat.inner() + regul * np.eye(len(inp_feat)))
  return FiniteOp(inp_feat, outp_feat, matr)
  \<close>
\<close>

definition RidgeCmo ::
  "'a rkhs \<Rightarrow> (matrix \<Rightarrow> matrix) \<Rightarrow> 'a \<Rightarrow> 'a \<Rightarrow> ndarray option \<Rightarrow> error + 'a" where
  "RidgeCmo E linalg_inv inp_feat outp_feat regul =
     err_bind (case regul of
                 None \<Rightarrow> Inr (nd_scalar (Cov_regul E 1 (len E inp_feat)))
               | Some r \<Rightarrow> if regul_assert r (len E inp_feat) then Inr r
                           else Inl AssertionError) (\<lambda>regul.
     err_bind (nd_binop (*) regul (eye (len E inp_feat))) (\<lambda>d.
     err_bind (nd_binop (+) (inner E inp_feat) d) (\<lambda>s.
     err_bind (nd_linalg_inv linalg_inv s) (\<lambda>matr.
     Inr (FiniteOp E inp_feat outp_feat matr)))))"

text \<open>
  \<^verbatim>\<open>
  if regul is not None:
      regul = np.array(regul, dtype=np.float32)
      assert regul.squeeze().size == 1 or regul.squeeze().shape[0] == len(inp_feat)
  mo = Cmo(inp_feat, outp_feat, regul)
  rval = Cov_solve(CovOp(ref_feat), mo, regul=regul)
  return rval
  \<close>
\<close>

definition Cdo :: "'a rkhs \<Rightarrow> 'a \<Rightarrow> 'a \<Rightarrow> 'a \<Rightarrow> ndarray option \<Rightarrow> error + 'a" where
  "Cdo E inp_feat outp_feat ref_feat regul =
     (if regul \<noteq> None \<and> \<not> regul_assert (the regul) (len E inp_feat) then Inl AssertionError
      else err_bind (Cmo E inp_feat outp_feat regul) (\<lambda>mo.
           Inr (Cov_solve E (CovOp E ref_feat) mo regul)))"

section \<open>Closed forms used to state the results\<close>

text \<open>
  \<open>set_col n row c v\<close> is the indexed update of a row of \<open>n > 0\<close> entries at the
  integer \<open>c\<close>, and \<open>idx_of vi\<close> are the entries of a row of the index array, sorted
  ascending, as integers.  \<open>sel_matrix n idx\<close> is the matrix that the loops of
  \<open>idcs_to_selection_matr\<close> build for the indices \<open>idx\<close>, and \<open>submatr gram idx\<close> is
  \<open>gram[idx][:, idx]\<close>, the principal submatrix of \<open>gram\<close> on the indices \<open>idx\<close>.
\<close>

definition set_col :: "nat \<Rightarrow> real list \<Rightarrow> int \<Rightarrow> real \<Rightarrow> real list" where
  "set_col n row c v =
     (let j = (if c < 0 then c + int n else c)
      in if 0 \<le> j \<and> j < int n then row[nat j := v] else row)"

definition idx_of :: "int32 list \<Rightarrow> int list" where
  "idx_of vi = map sint (sort_key sint vi)"

definition sel_matrix :: "nat \<Rightarrow> int list \<Rightarrow> matrix" where
  "sel_matrix n idx =
     \<lparr>nrows = length idx, ncols = n,
      rows = map (\<lambda>c. set_col n (replicate n 0) c 1) idx\<rparr>"

definition submatr :: "matrix \<Rightarrow> int list \<Rightarrow> matrix" where
  "submatr gram idx =
     \<lparr>nrows = length idx, ncols = length idx,
      rows = map (\<lambda>a. map (\<lambda>b. rows gram ! nat a ! nat b) idx) idx\<rparr>"

text \<open>
  \<open>table n f\<close> is the matrix of size \<open>n\<close> with entry \<open>f i j\<close> at \<open>(i, j)\<close>, and
  \<open>ridge K n r\<close> is \<open>K + regul * I\<close> for a matrix \<open>K\<close> of size \<open>n\<close>, where \<open>r j\<close> is
  the regularisation of column \<open>j\<close> (the same for all columns when \<open>regul\<close> is a
  scalar).
\<close>

definition table :: "nat \<Rightarrow> (nat \<Rightarrow> nat \<Rightarrow> real) \<Rightarrow> matrix" where
  "table n f = \<lparr>nrows = n, ncols = n, rows = map (\<lambda>i. map (\<lambda>j. f i j) [0..<n]) [0..<n]\<rparr>"

definition ridge :: "matrix \<Rightarrow> nat \<Rightarrow> (nat \<Rightarrow> real) \<Rightarrow> matrix" where
  "ridge K n r = table n (\<lambda>i j. rows K ! i ! j + r j * (if i = j then 1 else 0))"

section \<open>Inducing set selector (utilities/inducing.py)\<close>

text \<open>
  The kernel \<open>k\<close> (a callable of the repository's kern package, giving the Gram
  matrix of the points), SciPy's \<open>minimize\<close> and JAX's \<open>grad\<close> are parameters.  Of
  the optimiser's result only \<open>success\<close> and \<open>x\<close> (here \<open>opt_x\<close>) are read.
\<close>

record opt_result =
  success :: bool
  opt_x :: "real list"

text \<open>\<open>np.diag\<close> of a vector and of a matrix, and \<open>I - B\<close> for matrices of one shape.\<close>

definition diag_of :: "real list \<Rightarrow> matrix" where
  "diag_of l = table (length l) (\<lambda>i j. if i = j then l ! i else 0)"

definition diagonal :: "matrix \<Rightarrow> real list" where
  "diagonal A = map (\<lambda>i. rows A ! i ! i) [0..<min (nrows A) (ncols A)]"

definition msub :: "matrix \<Rightarrow> matrix \<Rightarrow> matrix" where
  "msub A B = \<lparr>nrows = nrows A, ncols = ncols A, rows = map2 (map2 (-)) (rows A) (rows B)\<rparr>"

text \<open>
  \<^verbatim>\<open>
  def cost(A, lamb):
      assert len(lamb.shape) == 1
      assert lamb.size == A.shape[0] == A.shape[1]
      fact = I - A @ np.diag(lamb)
      return (np.trace(fact @ G @ fact.T) + non_sparse_penalty * lamb.sum()) / N
  \<close>
\<close>

definition cost :: "matrix \<Rightarrow> nat \<Rightarrow> real \<Rightarrow> matrix \<Rightarrow> real list \<Rightarrow> error + real" where
  "cost G N non_sparse_penalty A lamb =
     (if length lamb = nrows A \<and> nrows A = ncols A
      then err_bind (matmul A (diag_of lamb)) (\<lambda>Al.
           err_bind (sym_matmul (msub (identity N) Al) G) (\<lambda>Q.
           Inr ((sum_list (diagonal Q) + non_sparse_penalty * sum_list lamb) / real N)))
      else Inl AssertionError)"

text \<open>
  \<^verbatim>\<open>
  def extract_params(params):
      return (params[N:].reshape((N, N)), params[:N])
  \<close>
  \<open>reshape\<close> raises when the number of entries is not \<open>N * N\<close>.
\<close>

definition extract_params :: "nat \<Rightarrow> real list \<Rightarrow> error + (matrix \<times> real list)" where
  "extract_params N params =
     (if length (drop N params) = N * N
      then Inr (\<lparr>nrows = N, ncols = N, rows = chunks N N (drop N params)\<rparr>, take N params)
      else Inl ValueError)"

definition flat_cost :: "matrix \<Rightarrow> nat \<Rightarrow> real \<Rightarrow> real list \<Rightarrow> error + real" where
  "flat_cost G N non_sparse_penalty params =
     err_bind (extract_params N params) (\<lambda>(A, lamb). cost G N non_sparse_penalty A lamb)"

text \<open>
  \<^verbatim>\<open>
  init = np.hstack([np.ones(N), np.eye(N).flatten()])
  bounds = [(0.0, 1.0)] * N
  bounds.extend([(None, None)] * N * N)
  rval = minimize(__casted_output(flat_cost), init,
                  jac=__casted_output(grad(flat_cost)), bounds=bounds)
  \<close>
\<close>

definition run_minimize ::
  "((real list \<Rightarrow> error + real) \<Rightarrow> real list \<Rightarrow> (real list \<Rightarrow> error + real list) \<Rightarrow>
      (real option \<times> real option) list \<Rightarrow> opt_result) \<Rightarrow>
   ((real list \<Rightarrow> error + real) \<Rightarrow> real list \<Rightarrow> error + real list) \<Rightarrow>
   matrix \<Rightarrow> nat \<Rightarrow> real \<Rightarrow> opt_result" where
  "run_minimize minimize grad G N non_sparse_penalty =
     (let init = replicate N 1 @ concat (rows (identity N));
          bounds = replicate N (Some 0, Some 1) @ replicate (N * N) (None, None)
      in minimize (flat_cost G N non_sparse_penalty) init
           (grad (flat_cost G N non_sparse_penalty)) bounds)"

text \<open>
  \<^verbatim>\<open>
  assert non_sparse_penalty > 0
  assert len(points) > 1
  assert len(points.shape) == 2
  N = len(points); I = np.eye(N); G = k(points)
  ...
  rval = minimize(...)
  assert rval["success"], "Optimization unsuccessfull"
  A, lamb = extract_params(rval["x"])
  selected = lamb > 0.0
  appr_matr = np.where(np.repeat(selected[:, np.newaxis], N, 1), I, A @ np.diag(lamb))
  fact = I - appr_matr
  m = np.sum(selected)
  distances = np.diag(fact @ G @ fact.T)
  assert m > 0, "No inducing points. Try smaller value for `non_sparse_penalty`"
  return (appr_matr, selected, distances, cost)
  \<close>
  \<open>len\<close> of a 0-d array raises a \<open>TypeError\<close>.  The progress line that is printed
  before the return is not part of the result.
\<close>

definition inducing_set ::
  "(ndarray \<Rightarrow> matrix) \<Rightarrow>
   ((real list \<Rightarrow> error + real) \<Rightarrow> real list \<Rightarrow> (real list \<Rightarrow> error + real list) \<Rightarrow>
      (real option \<times> real option) list \<Rightarrow> opt_result) \<Rightarrow>
   ((real list \<Rightarrow> error + real) \<Rightarrow> real list \<Rightarrow> error + real list) \<Rightarrow>
   ndarray \<Rightarrow> real \<Rightarrow>
   error + (matrix \<times> bool list \<times> real list \<times> (matrix \<Rightarrow> real list \<Rightarrow> error + real))" where
  "inducing_set k minimize grad points non_sparse_penalty =
     (if \<not> non_sparse_penalty > 0 then Inl AssertionError
      else case shape points of
        [] \<Rightarrow> Inl TypeError
      | N # _ \<Rightarrow>
          if \<not> N > 1 then Inl AssertionError
          else if \<not> length (shape points) = 2 then Inl AssertionError
          else
            let G = k points;
                rval = run_minimize minimize grad G N non_sparse_penalty
            in if \<not> success rval then Inl AssertionError
               else err_bind (extract_params N (opt_x rval)) (\<lambda>(A, lamb).
                    let selected = map (\<lambda>l. l > 0) lamb
                    in err_bind (matmul A (diag_of lamb)) (\<lambda>Al.
                       let appr_matr = \<lparr>nrows = N, ncols = N,
                                         rows = map (\<lambda>i. if selected ! i then rows (identity N) ! i
                                                           else rows Al ! i) [0..<N]\<rparr>;
                           fact = msub (identity N) appr_matr;
                           m = length (filter (\<lambda>b. b) selected)
                       in err_bind (sym_matmul fact G) (\<lambda>Q.
                          let distances = diagonal Q
                          in if \<not> m > 0 then Inl AssertionError
                             else Inr (appr_matr, selected, distances,
                                       cost G N non_sparse_penalty)))))"

section \<open>Facts about the model\<close>

lemma mapM_Inr_map:
  "(\<And>x. x \<in> set xs \<Longrightarrow> f x = Inr (g x)) \<Longrightarrow> mapM f xs = Inr (map g xs)"
  by (induction xs) simp_all

lemma length_arange: "length (arange n) = nat n"
  by (simp add: arange_def)

lemma nth_arange: "i < nat n \<Longrightarrow> arange n ! i = int i"
  by (simp add: arange_def)

lemma set_arange: "set (arange n) = {0..<n}"
proof -
  have "int ` {0..<nat n} = {0..<n}"
  proof (intro set_eqI iffI)
    fix x assume "x \<in> int ` {0..<nat n}"
    then show "x \<in> {0..<n}" by auto
  next
    fix x assume x: "x \<in> {0..<n}"
    then have "x = int (nat x)" "nat x \<in> {0..<nat n}" by auto
    then show "x \<in> int ` {0..<nat n}" by blast
  qed
  then show ?thesis by (simp add: arange_def)
qed

lemma np_delete_arange:
  assumes "0 \<le> i" "i < n"
  shows "np_delete (arange n) i = Inr (map int ([0..<nat i] @ [Suc (nat i)..<nat n]))"
proof -
  have t: "take (nat i) (arange n) = map int [0..<nat i]"
    using assms by (simp add: arange_def take_map take_upt)
  have d: "drop (Suc (nat i)) (arange n) = map int [Suc (nat i)..<nat n]"
    by (simp add: arange_def drop_map drop_upt)
  show ?thesis
    using assms by (simp add: np_delete_def Let_def length_arange t d)
qed

lemma loo_train_val_eq:
  "loo_train_val n =
     Inr (map (\<lambda>i. map int ([0..<nat i] @ [Suc (nat i)..<nat n])) (arange n),
          map (\<lambda>v. [v]) (arange n))"
proof -
  have "mapM (np_delete (arange n)) (arange n) =
        Inr (map (\<lambda>i. map int ([0..<nat i] @ [Suc (nat i)..<nat n])) (arange n))"
    by (rule mapM_Inr_map) (simp add: set_arange np_delete_arange)
  then show ?thesis by (simp add: loo_train_val_def Let_def)
qed

lemma distinct_arange: "distinct (arange n)"
  by (simp add: arange_def distinct_map inj_on_def)

lemma slice_to_from:
  "slice_to xs k @ slice_from xs k = xs"
  by (simp add: slice_to_def slice_from_def)

section \<open>Leave-one-out indices\<close>

text \<open>
  Claim C4.  For every \<open>n > 1\<close>, \<open>loo_train_val n\<close> returns a pair (train, val):
  train has \<open>n\<close> rows of \<open>n - 1\<close> entries, row \<open>i\<close> is strictly ascending and holds
  exactly the indices of \<open>[0, n)\<close> other than \<open>i\<close>; val has \<open>n\<close> rows and row
  \<open>i\<close> is \<open>[i]\<close>.  The result is a function of \<open>n\<close> alone.
\<close>

theorem loo_train_val_rows:
  assumes "1 < n"
  shows "\<exists>train val. loo_train_val n = Inr (train, val) \<and>
           length train = nat n \<and> length val = nat n \<and>
           (\<forall>i<nat n. length (train ! i) = nat n - 1 \<and>
                        sorted_wrt (<) (train ! i) \<and>
                        set (train ! i) = {0..<n} - {int i} \<and>
                        val ! i = [int i])"
proof -
  let ?row = "\<lambda>i. map int ([0..<nat i] @ [Suc (nat i)..<nat n])"
  let ?train = "map ?row (arange n)"
  let ?val = "map (\<lambda>v. [v]) (arange n)"
  have row: "length (?train ! i) = nat n - 1 \<and> sorted_wrt (<) (?train ! i) \<and>
             set (?train ! i) = {0..<n} - {int i} \<and> ?val ! i = [int i]"
    if i: "i < nat n" for i
  proof -
    have r: "?train ! i = map int ([0..<i] @ [Suc i..<nat n])"
      using i by (simp add: length_arange nth_arange)
    have len: "length (?train ! i) = nat n - 1"
      using i unfolding r by simp
    have srt': "sorted_wrt (<) (?train ! i)"
      unfolding r by (auto simp: sorted_wrt_map sorted_wrt_append)
    have "set ([0..<i] @ [Suc i..<nat n]) = {0..<nat n} - {i}"
      using i by auto
    then have "set (?train ! i) = int ` ({0..<nat n} - {i})"
      unfolding r by (simp only: set_map)
    also have "\<dots> = int ` {0..<nat n} - {int i}"
      by auto
    also have "int ` {0..<nat n} = {0..<n}"
      using set_arange [of n] by (simp add: arange_def)
    finally have st: "set (?train ! i) = {0..<n} - {int i}" .
    have v: "?val ! i = [int i]"
      using i by (simp add: length_arange nth_arange)
    from len srt' st v show ?thesis by blast
  qed
  have "loo_train_val n = Inr (?train, ?val)"
    by (rule loo_train_val_eq)
  moreover have "length ?train = nat n" "length ?val = nat n"
    by (simp_all add: length_arange)
  ultimately show ?thesis
    using row by blast
qed

theorem loo_train_val_rows_witness:
  "(1::int) < 3 \<and>
   (\<exists>train val. loo_train_val 3 = Inr (train, val) \<and>
      length train = nat 3 \<and> length val = nat 3 \<and>
      (\<forall>i<nat 3. length (train ! i) = nat 3 - 1 \<and>
                   sorted_wrt (<) (train ! i) \<and>
                   set (train ! i) = {0..<3} - {int i} \<and>
                   val ! i = [int i]))"
  using loo_train_val_rows [of 3] by simp

section \<open>Random train/validation splits\<close>

text \<open>
  Claim C5.  For every \<open>n\<close>, number of splits \<open>S\<close>, \<open>0 < n_train < n\<close> and key,
  given that \<open>random.split\<close> yields \<open>S\<close> keys and \<open>random.permutation\<close> yields a
  permutation of \<open>[0, n)\<close> for each of them, \<open>cv_train_val\<close> returns train of shape
  \<open>(S, n_train)\<close> and val of shape \<open>(S, n - n_train)\<close>, and in each row train and
  val are disjoint and together hold every index of \<open>[0, n)\<close> exactly once.
\<close>

theorem cv_train_val_partition:
  assumes nt: "0 < n_train" "n_train < n"
    and keys: "length (split rng S) = nat S"
    and perm: "\<forall>key\<in>set (split rng S). mset (permutation key n) = mset (arange n)"
    and res: "cv_train_val split permutation n n_train S rng = (train, val)"
  shows "length train = nat S \<and> length val = nat S \<and>
         (\<forall>s<nat S.
            length (train ! s) = nat n_train \<and>
            length (val ! s) = nat (n - n_train) \<and>
            mset (train ! s @ val ! s) = mset (arange n) \<and>
            distinct (train ! s @ val ! s) \<and>
            set (train ! s) \<inter> set (val ! s) = {} \<and>
            set (train ! s) \<union> set (val ! s) = {0..<n})"
proof -
  let ?p = "map (\<lambda>key. permutation key n) (split rng S)"
  have tr: "train = map (\<lambda>row. slice_to row n_train) ?p"
    and va: "val = map (\<lambda>row. slice_from row n_train) ?p"
    using res by (simp_all add: cv_train_val_def Let_def)
  have lens: "length train = nat S" "length val = nat S"
    by (simp_all add: tr va keys)
  have row: "length (train ! s) = nat n_train \<and>
             length (val ! s) = nat (n - n_train) \<and>
             mset (train ! s @ val ! s) = mset (arange n) \<and>
             distinct (train ! s @ val ! s) \<and>
             set (train ! s) \<inter> set (val ! s) = {} \<and>
             set (train ! s) \<union> set (val ! s) = {0..<n}"
    if s: "s < nat S" for s
  proof -
    define r where "r = permutation (split rng S ! s) n"
    have "split rng S ! s \<in> set (split rng S)"
      using s keys by simp
    then have m: "mset r = mset (arange n)"
      using perm by (simp add: r_def)
    have lr: "length r = nat n"
      using mset_eq_length [OF m] by (simp add: length_arange)
    have t: "train ! s = slice_to r n_train" and v: "val ! s = slice_from r n_train"
      using s keys by (simp_all add: tr va r_def)
    have cat: "train ! s @ val ! s = r"
      by (simp add: t v slice_to_from)
    have l1: "length (train ! s) = nat n_train"
      using nt lr by (simp add: t slice_to_def)
    have l2: "length (val ! s) = nat (n - n_train)"
      using nt lr by (simp add: v slice_from_def nat_diff_distrib)
    have d: "distinct r"
      using m distinct_arange mset_eq_imp_distinct_iff by blast
    have st: "set r = {0..<n}"
      using mset_eq_setD [OF m] by (simp add: set_arange)
    have d': "distinct (train ! s @ val ! s)"
      using d cat by simp
    then have dj: "set (train ! s) \<inter> set (val ! s) = {}"
      by simp
    have un: "set (train ! s) \<union> set (val ! s) = {0..<n}"
      using st cat by (metis set_append)
    show ?thesis
      using l1 l2 m cat d' dj un by simp
  qed
  show ?thesis
    using lens row by blast
qed

lemma mset_rotate_eq: "mset (rotate k xs) = mset xs"
proof -
  have "mset (drop n xs) + mset (take n xs) = mset xs" for n
    by (metis add.commute append_take_drop_id mset_append)
  then show ?thesis
    by (simp add: rotate_drop_take)
qed

theorem cv_train_val_partition_witness:
  "cv_train_val (\<lambda>key m. map (\<lambda>i. key + i) [0..<nat m]) (\<lambda>key m. rotate key (arange m))
     3 2 2 (0::nat) = ([[0, 1], [1, 2]], [[2], [0]]) \<and>
   mset ([0, 1] @ [2]) = mset (arange 3) \<and> mset ([1, 2] @ [0]) = mset (arange 3) \<and>
   set [1, 2] \<inter> set [0] = ({} :: int set) \<and> set [1, 2] \<union> set [0] = {0..<3::int}"
proof -
  let ?split = "\<lambda>(key::nat) m. map (\<lambda>i. key + i) [0..<nat m]"
  let ?perm = "\<lambda>(key::nat) m. rotate key (arange m)"
  let ?train = "[[0, 1], [1, 2]] :: int list list"
  let ?val = "[[2], [0]] :: int list list"
  have e: "cv_train_val ?split ?perm 3 2 2 0 = (?train, ?val)"
    by code_simp
  have k: "length (?split 0 2) = nat 2"
    by simp
  have p: "\<forall>key\<in>set (?split 0 2). mset (?perm key 3) = mset (arange 3)"
    by (simp add: mset_rotate_eq)
  have c: "\<forall>s<nat 2.
            length (?train ! s) = nat 2 \<and>
            length (?val ! s) = nat (3 - 2) \<and>
            mset (?train ! s @ ?val ! s) = mset (arange 3) \<and>
            distinct (?train ! s @ ?val ! s) \<and>
            set (?train ! s) \<inter> set (?val ! s) = {} \<and>
            set (?train ! s) \<union> set (?val ! s) = {0..<3}"
    using cv_train_val_partition [of 2 3 ?split 0 2 ?perm ?train ?val, OF _ _ k p e]
    by simp
  have "(0::nat) < nat 2" "(1::nat) < nat 2" by simp_all
  with c have "mset (?train ! 0 @ ?val ! 0) = mset (arange 3)"
      "mset (?train ! 1 @ ?val ! 1) = mset (arange 3)"
      "set (?train ! 1) \<inter> set (?val ! 1) = {}"
      "set (?train ! 1) \<union> set (?val ! 1) = {0..<3}"
    by blast+
  with e show ?thesis by simp
qed

section \<open>Selection matrices\<close>

text \<open>
  The two loops of \<open>idcs_to_selection_matr\<close> leave, for each row of the index
  array, the matrix whose row \<open>r\<close> is the zero row updated at the \<open>r\<close>-th index.
  No update is made for an empty row; every other row needs an axis of positive size.
\<close>

lemma at_set1_pos: "0 < n \<Longrightarrow> at_set1 n row c v = Inr (set_col n row (sint c) v)"
  by (simp add: at_set1_def set_col_def Let_def)

lemma foldM_at_set_row:
  "cs \<noteq> [] \<longrightarrow> 0 < n \<Longrightarrow> length pre = s \<Longrightarrow> length xs = k0 \<Longrightarrow>
   foldM (\<lambda>(r, c) rv. at_set rv s r c v) (enumerate k0 cs)
     (pre @ \<lparr>nrows = a, ncols = n, rows = xs @ replicate (length cs) z @ ys\<rparr> # post) =
   Inr (pre @ \<lparr>nrows = a, ncols = n,
                rows = xs @ map (\<lambda>c. set_col n z (sint c) v) cs @ ys\<rparr> # post)"
proof (induction cs arbitrary: xs k0)
  case Nil
  then show ?case by simp
next
  case (Cons c cs)
  then have n: "0 < n" by simp
  let ?m = "\<lparr>nrows = a, ncols = n, rows = xs @ replicate (length (c # cs)) z @ ys\<rparr>"
  have step: "at_set (pre @ ?m # post) s k0 c v =
      Inr (pre @ \<lparr>nrows = a, ncols = n,
                  rows = (xs @ [set_col n z (sint c) v]) @ replicate (length cs) z @ ys\<rparr> # post)"
    using Cons.prems(2,3)
    by (simp add: at_set_def Let_def nth_append list_update_append at_set1_pos [OF n]
        err_bind_def)
  have "cs \<noteq> [] \<longrightarrow> 0 < n"
    using n by simp
  moreover have "length (xs @ [set_col n z (sint c) v]) = Suc k0"
    using Cons.prems by simp
  ultimately show ?case
    using Cons.IH [of "xs @ [set_col n z (sint c) v]" "Suc k0"] Cons.prems(2) step by simp
qed

lemma foldM_at_set_batch:
  "\<forall>vi\<in>set vis. vi \<noteq> [] \<longrightarrow> 0 < n \<Longrightarrow> length pre = s0 \<Longrightarrow>
   foldM (\<lambda>(split, vi) rval.
            foldM (\<lambda>(r, c) rval. at_set rval split r c v) (enumerate 0 vi) rval)
     (enumerate s0 vis) (pre @ zeros vis n) =
   Inr (pre @ map (\<lambda>vi. \<lparr>nrows = length vi, ncols = n,
                          rows = map (\<lambda>c. set_col n (replicate n 0) (sint c) v) vi\<rparr>) vis)"
proof (induction vis arbitrary: pre s0)
  case Nil
  then show ?case by (simp add: zeros_def)
next
  case (Cons vi vis)
  let ?m = "\<lparr>nrows = length vi, ncols = n,
            rows = map (\<lambda>c. set_col n (replicate n 0) (sint c) v) vi\<rparr>"
  have "vi \<noteq> [] \<longrightarrow> 0 < n"
    using Cons.prems(1) by simp
  then have inner: "foldM (\<lambda>(r, c) rval. at_set rval s0 r c v) (enumerate 0 vi)
        (pre @ zeros (vi # vis) n) = Inr ((pre @ [?m]) @ zeros vis n)"
    using foldM_at_set_row [of vi n pre s0 "[]" 0 v "length vi" "replicate n 0" "[]" "zeros vis n"]
      Cons.prems(2) by (simp add: zeros_def)
  have "\<forall>vi\<in>set vis. vi \<noteq> [] \<longrightarrow> 0 < n"
    using Cons.prems(1) by simp
  moreover have "length (pre @ [?m]) = Suc s0"
    using Cons.prems by simp
  ultimately show ?case
    using Cons.IH [of "pre @ [?m]" "Suc s0"] inner by simp
qed

lemma idcs_to_selection_matr_eq:
  assumes "0 \<le> n" and "\<forall>vi\<in>set idcs. vi \<noteq> [] \<longrightarrow> 0 < n"
  shows "idcs_to_selection_matr n idcs srt =
     Inr (map (\<lambda>vi. \<lparr>nrows = length vi, ncols = nat n,
                      rows = map (\<lambda>c. set_col (nat n) (replicate (nat n) 0) (sint c) 1) vi\<rparr>)
              (if srt then idcs else map (sort_key sint) idcs))"
proof -
  let ?idcs = "if srt then idcs else map (sort_key sint) idcs"
  have "sort_key sint vi \<noteq> [] \<longleftrightarrow> vi \<noteq> []" for vi :: "int32 list"
    by (metis length_sort length_0_conv)
  then have "\<forall>vi\<in>set ?idcs. vi \<noteq> [] \<longrightarrow> 0 < nat n"
    using assms by auto
  from foldM_at_set_batch [OF this, of "[]" 0 1] show ?thesis
    using assms(1) by (cases srt) (simp_all add: idcs_to_selection_matr_def Let_def)
qed

text \<open>With an axis of size 0 the first index of the array raises.\<close>

lemma foldM_at_set_batch_empty_axis:
  "\<exists>vi\<in>set vis. vi \<noteq> [] \<Longrightarrow> length pre = s0 \<Longrightarrow>
   foldM (\<lambda>(split, vi) rval.
            foldM (\<lambda>(r, c) rval. at_set rval split r c v) (enumerate 0 vi) rval)
     (enumerate s0 vis) (pre @ zeros vis 0) = Inl IndexError"
proof (induction vis arbitrary: pre s0)
  case Nil
  then show ?case by simp
next
  case (Cons vi vis)
  show ?case
  proof (cases vi)
    case Nil
    let ?m = "\<lparr>nrows = 0, ncols = 0, rows = []\<rparr>"
    have z: "pre @ zeros (vi # vis) 0 = (pre @ [?m]) @ zeros vis 0"
      using Nil by (simp add: zeros_def)
    have "\<exists>vi\<in>set vis. vi \<noteq> []"
      using Cons.prems(1) Nil by simp
    moreover have "length (pre @ [?m]) = Suc s0"
      using Cons.prems by simp
    ultimately have "foldM (\<lambda>(split, vi) rval.
            foldM (\<lambda>(r, c) rval. at_set rval split r c v) (enumerate 0 vi) rval)
        (enumerate (Suc s0) vis) ((pre @ [?m]) @ zeros vis 0) = Inl IndexError"
      by (rule Cons.IH)
    then show ?thesis
      using Nil unfolding z by simp
  next
    case (Cons c cs)
    have "at_set (pre @ zeros (vi # vis) 0) s0 0 c v = Inl IndexError"
      using Cons Cons.prems(2)
      by (simp add: at_set_def zeros_def nth_append at_set1_def err_bind_def)
    then show ?thesis
      using Cons by simp
  qed
qed

lemma idcs_to_selection_matr_empty_axis:
  assumes "\<exists>vi\<in>set idcs. vi \<noteq> []"
  shows "idcs_to_selection_matr 0 idcs srt = Inl IndexError"
proof -
  let ?idcs = "if srt then idcs else map (sort_key sint) idcs"
  have "sort_key sint vi \<noteq> [] \<longleftrightarrow> vi \<noteq> []" for vi :: "int32 list"
    by (metis length_sort length_0_conv)
  then have "\<exists>vi\<in>set ?idcs. vi \<noteq> []"
    using assms by auto
  from foldM_at_set_batch_empty_axis [OF this, of "[]" 0 1] show ?thesis
    by (cases srt) (simp_all add: idcs_to_selection_matr_def Let_def)
qed

lemma set_col_one_hot:
  "0 \<le> c \<Longrightarrow> c < int n \<Longrightarrow> j < n \<Longrightarrow>
   set_col n (replicate n 0) c 1 ! j = (if j = nat c then 1 else 0)"
  by (auto simp: set_col_def Let_def)

lemma length_set_col: "length (set_col n row c v) = length row"
  by (simp add: set_col_def Let_def)

lemma one_hot_dot:
  assumes "0 \<le> c" "c < int n"
  shows "(\<Sum>k\<leftarrow>[0..<n]. set_col n (replicate n 0) c 1 ! k * f k) = f (nat c)"
proof -
  have "(\<Sum>k\<leftarrow>[0..<n]. set_col n (replicate n 0) c 1 ! k * f k) =
        (\<Sum>k\<in>{0..<n}. set_col n (replicate n 0) c 1 ! k * f k)"
    by (simp add: interv_sum_list_conv_sum_set_nat)
  also have "\<dots> = (\<Sum>k\<in>{0..<n}. if k = nat c then f k else 0)"
    using assms by (intro sum.cong refl) (simp add: set_col_one_hot)
  also have "\<dots> = f (nat c)"
  proof -
    have "nat c \<in> {0..<n}" using assms by auto
    then show ?thesis by simp
  qed
  finally show ?thesis .
qed

lemma matmul_one_hot_rows:
  assumes M: "wf_matrix M" "nrows M = n"
    and idx: "\<forall>c\<in>set idx. 0 \<le> c \<and> c < int n"
  shows "matmul \<lparr>nrows = k, ncols = n,
                 rows = map (\<lambda>c. set_col n (replicate n 0) c 1) idx\<rparr> M =
         Inr \<lparr>nrows = k, ncols = ncols M, rows = map (\<lambda>c. rows M ! nat c) idx\<rparr>"
proof -
  have row: "map (\<lambda>j. \<Sum>k\<leftarrow>[0..<n]. set_col n (replicate n 0) c 1 ! k * rows M ! k ! j)
               [0..<ncols M] = rows M ! nat c"
    if c: "c \<in> set idx" for c
  proof -
    have c': "0 \<le> c" "c < int n" using idx c by auto
    then have "nat c < length (rows M)"
      using M by (simp add: wf_matrix_def)
    then have len: "length (rows M ! nat c) = ncols M"
      using M by (simp add: wf_matrix_def list_all_length)
    have "map (\<lambda>j. \<Sum>k\<leftarrow>[0..<n]. set_col n (replicate n 0) c 1 ! k * rows M ! k ! j)
            [0..<ncols M] = map (\<lambda>j. rows M ! nat c ! j) [0..<ncols M]"
      using one_hot_dot [OF c'] by simp
    also have "\<dots> = rows M ! nat c"
      using len map_nth [of "rows M ! nat c"] by simp
    finally show ?thesis .
  qed
  show ?thesis
    using M(2) row by (simp add: matmul_def)
qed

text \<open>
  Claim C1.  For an index array of shape \<open>(num_splits, k)\<close> with values in
  \<open>[0, N)\<close>, \<open>idcs_to_selection_matr N idcs idcs_sorted\<close> returns \<open>num_splits\<close>
  matrices of shape \<open>(k, N)\<close>; entry \<open>[s, r, c]\<close> is 1 if \<open>c\<close> is the \<open>r\<close>-th
  index of split \<open>s\<close> (of the split's row sorted ascending when \<open>idcs_sorted\<close> is
  false) and 0 otherwise; and the product of the split's matrix with any matrix
  \<open>M\<close> of \<open>N\<close> rows is the rows of \<open>M\<close> at those indices, in that order.
\<close>

theorem idcs_to_selection_matr_entries:
  assumes shape: "\<forall>vi\<in>set idcs. length vi = k"
    and range: "\<forall>vi\<in>set idcs. \<forall>c\<in>set vi. 0 \<le> sint c \<and> sint c < int N"
  shows "\<exists>sel. idcs_to_selection_matr (int N) idcs idcs_sorted = Inr sel \<and>
           length sel = length idcs \<and>
           (\<forall>s<length idcs.
              wf_matrix (sel ! s) \<and> nrows (sel ! s) = k \<and> ncols (sel ! s) = N \<and>
              (\<forall>r<k. \<forall>c<N. rows (sel ! s) ! r ! c =
                 (if int c = sint ((if idcs_sorted then idcs ! s
                                    else sort_key sint (idcs ! s)) ! r)
                  then 1 else 0)) \<and>
              (\<forall>M. wf_matrix M \<and> nrows M = N \<longrightarrow>
                 matmul (sel ! s) M =
                   Inr \<lparr>nrows = k, ncols = ncols M,
                        rows = map (\<lambda>i. rows M ! nat (sint i))
                                 (if idcs_sorted then idcs ! s
                                  else sort_key sint (idcs ! s))\<rparr>))"
proof -
  let ?idcs = "if idcs_sorted then idcs else map (sort_key sint) idcs"
  let ?mk = "\<lambda>vi. \<lparr>nrows = length vi, ncols = N,
                    rows = map (\<lambda>c. set_col N (replicate N 0) (sint c) 1) vi\<rparr>"
  let ?sel = "map ?mk ?idcs"
  have pos: "\<forall>vi\<in>set idcs. vi \<noteq> [] \<longrightarrow> 0 < int N"
  proof (intro ballI impI)
    fix vi assume vi: "vi \<in> set idcs" "vi \<noteq> []"
    from vi(2) obtain c where "c \<in> set vi" by (cases vi) auto
    with range vi(1) have "0 \<le> sint c" "sint c < int N" by auto
    then show "0 < int N" by simp
  qed
  have eq: "idcs_to_selection_matr (int N) idcs idcs_sorted = Inr ?sel"
    using idcs_to_selection_matr_eq [of "int N" idcs idcs_sorted] pos by simp
  have len: "length ?sel = length idcs"
    by simp
  have split: "wf_matrix (?sel ! s) \<and> nrows (?sel ! s) = k \<and> ncols (?sel ! s) = N \<and>
      (\<forall>r<k. \<forall>c<N. rows (?sel ! s) ! r ! c =
         (if int c = sint ((if idcs_sorted then idcs ! s else sort_key sint (idcs ! s)) ! r)
          then 1 else 0)) \<and>
      (\<forall>M. wf_matrix M \<and> nrows M = N \<longrightarrow>
         matmul (?sel ! s) M =
           Inr \<lparr>nrows = k, ncols = ncols M,
                rows = map (\<lambda>i. rows M ! nat (sint i))
                         (if idcs_sorted then idcs ! s else sort_key sint (idcs ! s))\<rparr>)"
    if s: "s < length idcs" for s
  proof -
    define idx where "idx = (if idcs_sorted then idcs ! s else sort_key sint (idcs ! s))"
    have mem: "idcs ! s \<in> set idcs" using s by simp
    have sel: "?sel ! s = ?mk idx"
      using s by (simp add: idx_def)
    have lk: "length idx = k"
      using shape mem by (simp add: idx_def)
    have rg: "\<forall>c\<in>set idx. 0 \<le> sint c \<and> sint c < int N"
      using range mem by (simp add: idx_def)
    have wf: "wf_matrix (?mk idx)"
      by (simp add: wf_matrix_def list_all_iff length_set_col)
    have ent: "rows (?mk idx) ! r ! c = (if int c = sint (idx ! r) then 1 else 0)"
      if "r < k" "c < N" for r c
    proof -
      have "idx ! r \<in> set idx" using that lk by simp
      then have "0 \<le> sint (idx ! r)" "sint (idx ! r) < int N" using rg by auto
      then show ?thesis
        using that lk by (auto simp: set_col_one_hot)
    qed
    have mm: "matmul (?mk idx) M =
        Inr \<lparr>nrows = k, ncols = ncols M, rows = map (\<lambda>i. rows M ! nat (sint i)) idx\<rparr>"
      if "wf_matrix M \<and> nrows M = N" for M
    proof -
      have "\<forall>c\<in>set (map sint idx). 0 \<le> c \<and> c < int N"
        using rg by simp
      from matmul_one_hot_rows [of M N "map sint idx" "length idx", OF _ _ this] that lk
      show ?thesis
        by (simp add: comp_def)
    qed
    show ?thesis
      unfolding sel using wf lk ent mm by (simp add: idx_def)
  qed
  show ?thesis
    using eq len split by blast
qed

theorem idcs_to_selection_matr_entries_witness:
  "\<exists>sel. idcs_to_selection_matr (int 5) [[0, 3, 2], [1, 2, 3]] False = Inr sel \<and>
     length sel = 2 \<and> nrows (sel ! 0) = 3 \<and> ncols (sel ! 0) = 5 \<and>
     rows (sel ! 0) ! 1 ! 2 = 1 \<and> rows (sel ! 0) ! 1 ! 3 = 0 \<and>
     matmul (sel ! 0)
       \<lparr>nrows = 5, ncols = 2, rows = [[10, 11], [20, 21], [30, 31], [40, 41], [50, 51]]\<rparr> =
     Inr \<lparr>nrows = 3, ncols = 2, rows = [[10, 11], [30, 31], [40, 41]]\<rparr>"
proof -
  let ?idcs = "[[0, 3, 2], [1, 2, 3]] :: int32 list list"
  let ?M = "\<lparr>nrows = 5, ncols = 2, rows = [[10, 11], [20, 21], [30, 31], [40, 41], [50, 51]]\<rparr>"
  have shape: "\<forall>vi\<in>set ?idcs. length vi = 3"
    by simp
  have range: "\<forall>vi\<in>set ?idcs. \<forall>c\<in>set vi. 0 \<le> sint c \<and> sint c < int 5"
    by simp
  have M: "wf_matrix ?M \<and> nrows ?M = 5"
    by (simp add: wf_matrix_def)
  from idcs_to_selection_matr_entries [OF shape range, of False]
  obtain sel where sel: "idcs_to_selection_matr (int 5) ?idcs False = Inr sel"
    "length sel = length ?idcs"
    and all: "\<forall>s<length ?idcs.
              wf_matrix (sel ! s) \<and> nrows (sel ! s) = 3 \<and> ncols (sel ! s) = 5 \<and>
              (\<forall>r<3. \<forall>c<5. rows (sel ! s) ! r ! c =
                 (if int c = sint ((if False then ?idcs ! s else sort_key sint (?idcs ! s)) ! r)
                  then 1 else 0)) \<and>
              (\<forall>M. wf_matrix M \<and> nrows M = 5 \<longrightarrow>
                 matmul (sel ! s) M =
                   Inr \<lparr>nrows = 3, ncols = ncols M,
                        rows = map (\<lambda>i. rows M ! nat (sint i))
                                 (if False then ?idcs ! s else sort_key sint (?idcs ! s))\<rparr>)"
    by blast
  have s0: "(0::nat) < length ?idcs" by simp
  from all s0 have a: "nrows (sel ! 0) = 3" "ncols (sel ! 0) = 5"
    and e: "\<forall>r<3. \<forall>c<5. rows (sel ! 0) ! r ! c =
                 (if int c = sint (sort_key sint (?idcs ! 0) ! r) then 1 else 0)"
    and m: "\<forall>M. wf_matrix M \<and> nrows M = 5 \<longrightarrow>
                 matmul (sel ! 0) M =
                   Inr \<lparr>nrows = 3, ncols = ncols M,
                        rows = map (\<lambda>i. rows M ! nat (sint i)) (sort_key sint (?idcs ! 0))\<rparr>"
    by simp_all
  have srt: "sort_key sint (?idcs ! 0) = [0, 2, 3]"
    by code_simp
  have e1: "rows (sel ! 0) ! 1 ! 2 = 1"
    using e [rule_format, of 1 2] by (simp add: srt)
  have e2: "rows (sel ! 0) ! 1 ! 3 = 0"
    using e [rule_format, of 1 3] by (simp add: srt)
  have mm: "matmul (sel ! 0) ?M = Inr \<lparr>nrows = 3, ncols = 2, rows = [[10, 11], [30, 31], [40, 41]]\<rparr>"
    using m [rule_format, OF M] by (simp add: srt)
  show ?thesis
    using sel a e1 e2 mm by auto
qed

section \<open>Indices outside the axis\<close>

text \<open>
  Claim C9 says that \<open>idcs_to_selection_matr\<close> rejects an index array with an entry
  outside \<open>[0, N)\<close>.  The function has no range check and the indexed update skips
  such an entry: with \<open>N = 3\<close> and the indices \<open>[0, 5]\<close> it returns a tensor whose
  second row is zero.
\<close>

theorem idcs_to_selection_matr_out_of_range_accepted:
  "idcs_to_selection_matr 3 [[0, 5]] False =
     Inr [\<lparr>nrows = 2, ncols = 3, rows = [[1, 0, 0], [0, 0, 0]]\<rparr>]"
  by code_simp

text \<open>
  Claim C9, as the code has it.  \<open>idcs_to_selection_matr\<close> has no range check of its
  own.  For \<open>N \<ge> 1\<close> it returns a tensor for every index array and does not reject an
  index outside \<open>[0, N)\<close>: an index in \<open>[0, N)\<close> sets its column, an index in
  \<open>[-N, 0)\<close> sets column \<open>c + N\<close>, and an index outside \<open>[-N, N)\<close> leaves its row
  zero.  For \<open>N = 0\<close>, where every index is outside the range, the indexed update
  raises an \<open>IndexError\<close> as soon as the array has an entry.
\<close>

theorem idcs_to_selection_matr_no_range_check:
  "(0 < N \<longrightarrow>
      idcs_to_selection_matr (int N) idcs idcs_sorted =
        Inr (map (\<lambda>vi. \<lparr>nrows = length vi, ncols = N,
                         rows = map (\<lambda>c. if 0 \<le> sint c \<and> sint c < int N
                                         then (replicate N 0)[nat (sint c) := 1]
                                         else if - int N \<le> sint c \<and> sint c < 0
                                              then (replicate N 0)[nat (sint c + int N) := 1]
                                              else replicate N 0) vi\<rparr>)
                 (if idcs_sorted then idcs else map (sort_key sint) idcs))) \<and>
   (N = 0 \<and> (\<exists>vi\<in>set idcs. vi \<noteq> []) \<longrightarrow>
      idcs_to_selection_matr (int N) idcs idcs_sorted = Inl IndexError)"
proof -
  have col: "set_col N (replicate N 0) (sint c) 1 =
        (if 0 \<le> sint c \<and> sint c < int N then (replicate N 0)[nat (sint c) := 1]
         else if - int N \<le> sint c \<and> sint c < 0 then (replicate N 0)[nat (sint c + int N) := 1]
         else replicate N 0)" for c :: int32
    by (simp add: set_col_def Let_def)
  have pos: "idcs_to_selection_matr (int N) idcs idcs_sorted =
        Inr (map (\<lambda>vi. \<lparr>nrows = length vi, ncols = N,
                         rows = map (\<lambda>c. if 0 \<le> sint c \<and> sint c < int N
                                         then (replicate N 0)[nat (sint c) := 1]
                                         else if - int N \<le> sint c \<and> sint c < 0
                                              then (replicate N 0)[nat (sint c + int N) := 1]
                                              else replicate N 0) vi\<rparr>)
                 (if idcs_sorted then idcs else map (sort_key sint) idcs))"
    if "0 < N"
    using idcs_to_selection_matr_eq [of "int N" idcs idcs_sorted] that by (simp add: col)
  have zero: "idcs_to_selection_matr (int N) idcs idcs_sorted = Inl IndexError"
    if "N = 0 \<and> (\<exists>vi\<in>set idcs. vi \<noteq> [])"
    using idcs_to_selection_matr_empty_axis [of idcs idcs_sorted] that by simp
  from pos zero show ?thesis
    by blast
qed

theorem idcs_to_selection_matr_no_range_check_witness:
  "idcs_to_selection_matr (int 3) [[7, - 1], [- 4, 2]] False =
     Inr [\<lparr>nrows = 2, ncols = 3, rows = [[0, 0, 1], [0, 0, 0]]\<rparr>,
          \<lparr>nrows = 2, ncols = 3, rows = [[0, 0, 0], [0, 0, 1]]\<rparr>] \<and>
   idcs_to_selection_matr (int 0) [[], [0]] True = Inl IndexError"
proof -
  let ?idcs = "[[7, - 1], [- 4, 2]] :: int32 list list"
  have s: "map (sort_key sint) ?idcs = [[- 1, 7], [- 4, 2]]"
    by code_simp
  have 1: "idcs_to_selection_matr (int 3) ?idcs False =
     Inr [\<lparr>nrows = 2, ncols = 3, rows = [[0, 0, 1], [0, 0, 0]]\<rparr>,
          \<lparr>nrows = 2, ncols = 3, rows = [[0, 0, 0], [0, 0, 1]]\<rparr>]"
    using idcs_to_selection_matr_no_range_check [of 3 ?idcs False]
    unfolding if_False s by (simp add: numeral_3_eq_3 numeral_2_eq_2)
  have "(0::nat) = 0 \<and> (\<exists>vi\<in>set ([[], [0]] :: int32 list list). vi \<noteq> [])"
    by simp
  with idcs_to_selection_matr_no_range_check [of 0 "[[], [0]]" True]
  have 2: "idcs_to_selection_matr (int 0) [[], [0]] True = Inl IndexError"
    by blast
  from 1 2 show ?thesis
    by blast
qed

section \<open>Extracting the submatrices\<close>

lemma err_bind_Inr: "err_bind (Inr x) f = f x"
  by (simp add: err_bind_def)

lemma err_bind_Inl: "err_bind (Inl e) f = Inl e"
  by (simp add: err_bind_def)

lemma set_idx_of: "set (idx_of vi) = sint ` set vi"
  by (simp add: idx_of_def)

lemma length_idx_of: "length (idx_of vi) = length vi"
  by (simp add: idx_of_def)

lemma idx_of_range:
  "\<forall>c\<in>set vi. 0 \<le> sint c \<and> sint c < int n \<Longrightarrow> \<forall>c\<in>set (idx_of vi). 0 \<le> c \<and> c < int n"
  by (auto simp: set_idx_of)

lemma idcs_to_selection_matr_sel:
  assumes "\<forall>vi\<in>set idcs. \<forall>c\<in>set vi. 0 \<le> sint c \<and> sint c < int n"
  shows "idcs_to_selection_matr (int n) idcs False =
     Inr (map (\<lambda>vi. sel_matrix n (idx_of vi)) idcs)"
proof -
  have "\<forall>vi\<in>set idcs. vi \<noteq> [] \<longrightarrow> 0 < int n"
  proof (intro ballI impI)
    fix vi assume vi: "vi \<in> set idcs" "vi \<noteq> []"
    from vi(2) obtain c where "c \<in> set vi" by (cases vi) auto
    with assms vi(1) have "0 \<le> sint c" "sint c < int n" by auto
    then show "0 < int n" by simp
  qed
  from idcs_to_selection_matr_eq [of "int n" idcs False, OF _ this] show ?thesis
    by (simp add: sel_matrix_def idx_of_def comp_def)
qed

lemma wf_sel_matrix: "wf_matrix (sel_matrix n idx)"
  by (simp add: sel_matrix_def wf_matrix_def list_all_iff length_set_col)

lemma sel_matrix_entry:
  "r < length idx \<Longrightarrow> rows (sel_matrix n idx) ! r = set_col n (replicate n 0) (idx ! r) 1"
  by (simp add: sel_matrix_def)

lemma sel_matmul:
  assumes "wf_matrix M" "nrows M = n" "\<forall>c\<in>set idx. 0 \<le> c \<and> c < int n"
  shows "matmul (sel_matrix n idx) M =
         Inr \<lparr>nrows = length idx, ncols = ncols M, rows = map (\<lambda>c. rows M ! nat c) idx\<rparr>"
  using matmul_one_hot_rows [OF assms, of "length idx"] by (simp add: sel_matrix_def)

lemma sum_list_upt_cong:
  "(\<And>k. k < n \<Longrightarrow> f k = g k) \<Longrightarrow> (\<Sum>k\<leftarrow>[0..<n]. f k) = (\<Sum>k\<leftarrow>[0..<n]. (g k :: real))"
  by (rule arg_cong [where f = sum_list]) simp

lemma map_upt_cong:
  "(\<And>k. k < n \<Longrightarrow> f k = g k) \<Longrightarrow> map f [0..<n] = map g [0..<n]"
  by simp

lemma map_nth_upt: "map (\<lambda>b. f (xs ! b)) [0..<length xs] = map f xs"
  by (rule nth_equalityI) simp_all

lemma matmul_sel_transpose:
  assumes X: "ncols X = n" and idx: "\<forall>c\<in>set idx. 0 \<le> c \<and> c < int n"
  shows "matmul X (transpose_m (sel_matrix n idx)) =
         Inr \<lparr>nrows = nrows X, ncols = length idx,
              rows = map (\<lambda>row. map (\<lambda>c. row ! nat c) idx) (rows X)\<rparr>"
proof -
  let ?T = "transpose_m (sel_matrix n idx)"
  have dims: "nrows ?T = n" "ncols ?T = length idx"
    by (simp_all add: transpose_m_def sel_matrix_def)
  have ent: "rows ?T ! j ! b = set_col n (replicate n 0) (idx ! b) 1 ! j"
    if "j < n" "b < length idx" for j b
    using that by (simp add: transpose_m_def sel_matrix_def)
  have dot: "(\<Sum>j\<leftarrow>[0..<n]. row ! j * rows ?T ! j ! b) = row ! nat (idx ! b)"
    if b: "b < length idx" for row :: "real list" and b
  proof -
    have c: "0 \<le> idx ! b" "idx ! b < int n"
      using idx b by auto
    have "(\<Sum>j\<leftarrow>[0..<n]. row ! j * rows ?T ! j ! b) =
          (\<Sum>j\<leftarrow>[0..<n]. set_col n (replicate n 0) (idx ! b) 1 ! j * row ! j)"
      by (rule sum_list_upt_cong) (simp add: ent b)
    also have "\<dots> = row ! nat (idx ! b)"
      by (rule one_hot_dot [OF c])
    finally show ?thesis .
  qed
  have row: "map (\<lambda>b. \<Sum>j\<leftarrow>[0..<n]. row ! j * rows ?T ! j ! b) [0..<length idx] =
             map (\<lambda>c. row ! nat c) idx" for row :: "real list"
  proof -
    have "map (\<lambda>b. \<Sum>j\<leftarrow>[0..<n]. row ! j * rows ?T ! j ! b) [0..<length idx] =
          map (\<lambda>b. row ! nat (idx ! b)) [0..<length idx]"
      by (rule map_upt_cong) (rule dot)
    also have "\<dots> = map (\<lambda>c. row ! nat c) idx"
      by (rule map_nth_upt)
    finally show ?thesis .
  qed
  show ?thesis
    using X by (simp add: matmul_def dims row)
qed

lemma sym_matmul_sel:
  assumes gram: "wf_matrix gram" "nrows gram = n" "ncols gram = n"
    and idx: "\<forall>c\<in>set idx. 0 \<le> c \<and> c < int n"
  shows "sym_matmul (sel_matrix n idx) gram = Inr (submatr gram idx)"
proof -
  let ?X = "\<lparr>nrows = length idx, ncols = ncols gram, rows = map (\<lambda>c. rows gram ! nat c) idx\<rparr>"
  have 1: "matmul (sel_matrix n idx) gram = Inr ?X"
    by (rule sel_matmul [OF gram(1,2) idx])
  have 2: "matmul ?X (transpose_m (sel_matrix n idx)) =
           Inr \<lparr>nrows = nrows ?X, ncols = length idx,
                rows = map (\<lambda>row. map (\<lambda>c. row ! nat c) idx) (rows ?X)\<rparr>"
    by (rule matmul_sel_transpose [OF _ idx]) (simp add: gram)
  show ?thesis
    by (simp add: sym_matmul_def err_bind_def 1 2 submatr_def)
qed

lemma mapM_map: "mapM f (map g xs) = mapM (\<lambda>x. f (g x)) xs"
  by (induction xs) (simp_all split: sum.splits)

lemma sym_matmul_fixed_inp_sel:
  assumes gram: "wf_matrix gram" "nrows gram = n" "ncols gram = n"
    and idx: "\<forall>vi\<in>set idxs. \<forall>c\<in>set vi. 0 \<le> c \<and> c < int n"
  shows "sym_matmul_fixed_inp (map (sel_matrix n) idxs) gram = Inr (map (submatr gram) idxs)"
  unfolding sym_matmul_fixed_inp_def mapM_map
  by (rule mapM_Inr_map) (simp add: sym_matmul_sel [OF gram] idx)

lemma vinvert_submatr:
  "vinvert f (map (\<lambda>vi. submatr gram (g vi)) idxs) = Inr (map (\<lambda>vi. f (submatr gram (g vi))) idxs)"
  by (simp add: vinvert_def list_all_iff submatr_def comp_def)

lemma invert_submatr_raw:
  assumes gram: "wf_matrix gram" "ncols gram = nrows gram"
    and idx: "\<forall>vi\<in>set idcs. \<forall>c\<in>set vi. 0 \<le> sint c \<and> sint c < int (nrows gram)"
  shows "invert_submatr f gram idcs False =
         Inr (map (\<lambda>vi. f (submatr gram (idx_of vi))) idcs)"
proof -
  have idx': "\<forall>vi\<in>set (map idx_of idcs). \<forall>c\<in>set vi. 0 \<le> c \<and> c < int (nrows gram)"
    using idx by (auto simp: set_idx_of)
  have 1: "idcs_to_selection_matr (int (nrows gram)) idcs False =
           Inr (map (sel_matrix (nrows gram)) (map idx_of idcs))"
    using idcs_to_selection_matr_sel [OF idx] by (simp add: comp_def)
  have "sym_matmul_fixed_inp (map (sel_matrix (nrows gram)) (map idx_of idcs)) gram =
        Inr (map (submatr gram) (map idx_of idcs))"
    by (rule sym_matmul_fixed_inp_sel [OF gram(1) refl gram(2) idx'])
  then have 2: "sym_matmul_fixed_inp (map (sel_matrix (nrows gram)) (map idx_of idcs)) gram =
        Inr (map (\<lambda>vi. submatr gram (idx_of vi)) idcs)"
    by (simp add: comp_def)
  show ?thesis
    by (simp only: invert_submatr_def 1 2 err_bind_Inr vinvert_submatr if_False)
qed

lemma mapM_Inr_iff:
  "mapM f xs = Inr ys \<longleftrightarrow>
   length ys = length xs \<and> (\<forall>i<length xs. f (xs ! i) = Inr (ys ! i))"
proof (induction xs arbitrary: ys)
  case Nil
  then show ?case by auto
next
  case (Cons x xs)
  show ?case
  proof (cases ys)
    case Nil
    then show ?thesis by (simp split: sum.splits)
  next
    case (Cons y ys')
    have "(\<forall>i<Suc (length xs). f ((x # xs) ! i) = Inr ((y # ys') ! i)) \<longleftrightarrow>
          f x = Inr y \<and> (\<forall>i<length xs. f (xs ! i) = Inr (ys' ! i))"
      by (auto simp: less_Suc_eq_0_disj)
    then show ?thesis
      using Cons.IH [of ys'] Cons by (auto split: sum.splits)
  qed
qed

lemma mapM_total:
  "(\<And>x. x \<in> set xs \<Longrightarrow> \<exists>y. f x = Inr y) \<Longrightarrow> \<exists>ys. mapM f xs = Inr ys"
proof (induction xs)
  case Nil
  then show ?case by simp
next
  case (Cons x xs)
  then obtain y ys where "f x = Inr y" "mapM f xs = Inr ys"
    by (meson list.set_intros)
  then show ?case by simp
qed

lemma transpose_m_transpose_m:
  assumes "wf_matrix A"
  shows "transpose_m (transpose_m A) = A"
proof -
  have len: "length (rows A) = nrows A" and row: "\<And>i. i < nrows A \<Longrightarrow> length (rows A ! i) = ncols A"
    using assms by (simp_all add: wf_matrix_def list_all_length)
  have "map (\<lambda>j. map (\<lambda>row. row ! j) (map (\<lambda>j. map (\<lambda>row. row ! j) (rows A)) [0..<ncols A]))
          [0..<nrows A] = rows A"
  proof (rule nth_equalityI)
    show "length (map (\<lambda>j. map (\<lambda>row. row ! j)
            (map (\<lambda>j. map (\<lambda>row. row ! j) (rows A)) [0..<ncols A])) [0..<nrows A]) =
          length (rows A)"
      by (simp add: len)
  next
    fix i
    assume "i < length (map (\<lambda>j. map (\<lambda>row. row ! j)
            (map (\<lambda>j. map (\<lambda>row. row ! j) (rows A)) [0..<ncols A])) [0..<nrows A])"
    then have i: "i < nrows A" by simp
    have "map (\<lambda>row. row ! i) (map (\<lambda>j. map (\<lambda>row. row ! j) (rows A)) [0..<ncols A]) =
          rows A ! i"
      by (rule nth_equalityI) (simp_all add: row i len)
    then show "map (\<lambda>j. map (\<lambda>row. row ! j)
            (map (\<lambda>j. map (\<lambda>row. row ! j) (rows A)) [0..<ncols A])) [0..<nrows A] ! i =
          rows A ! i"
      using i by simp
  qed
  then show ?thesis
    by (simp add: transpose_m_def)
qed

lemma sel_matrix_zero_column:
  assumes idx: "\<forall>c\<in>set idx. 0 \<le> c \<and> c < int n"
    and i: "i < n" "int i \<notin> set idx" and a: "a < length idx"
  shows "rows (sel_matrix n idx) ! a ! i = 0"
proof -
  have m: "idx ! a \<in> set idx" using a by simp
  then have "0 \<le> idx ! a" "idx ! a < int n" using idx by auto
  moreover have "i \<noteq> nat (idx ! a)" using i(2) m \<open>0 \<le> idx ! a\<close> by auto
  ultimately show ?thesis
    using a i(1) by (simp add: sel_matrix_entry set_col_one_hot)
qed

lemma zerofill_split:
  assumes Y: "nrows Y = length idx" "ncols Y = length idx"
    and idx: "\<forall>c\<in>set idx. 0 \<le> c \<and> c < int n"
  shows "\<exists>Z. sym_matmul (transpose_m (sel_matrix n idx)) Y = Inr Z \<and>
           err_bind (matmul (transpose_m (sel_matrix n idx)) Y)
             (\<lambda>x. matmul x (sel_matrix n idx)) = Inr Z \<and>
           wf_matrix Z \<and> nrows Z = n \<and> ncols Z = n \<and>
           (\<forall>i<n. \<forall>j<n. int i \<notin> set idx \<or> int j \<notin> set idx \<longrightarrow> rows Z ! i ! j = 0)"
proof -
  let ?S = "sel_matrix n idx"
  let ?T = "transpose_m ?S"
  let ?k = "length idx"
  define W where "W = \<lparr>nrows = n, ncols = ?k,
      rows = map (\<lambda>row. map (\<lambda>b. \<Sum>a\<leftarrow>[0..<?k]. row ! a * rows Y ! a ! b) [0..<?k]) (rows ?T)\<rparr>"
  define Z where "Z = \<lparr>nrows = n, ncols = n,
      rows = map (\<lambda>row. map (\<lambda>j. \<Sum>b\<leftarrow>[0..<?k]. row ! b * rows ?S ! b ! j) [0..<n]) (rows W)\<rparr>"
  have dS: "nrows ?S = ?k" "ncols ?S = n"
    by (simp_all add: sel_matrix_def)
  have dT: "nrows ?T = n" "ncols ?T = ?k" "length (rows ?T) = n"
    by (simp_all add: transpose_m_def sel_matrix_def)
  have 1: "matmul ?T Y = Inr W"
    by (simp add: matmul_def dT Y W_def)
  have 2: "matmul W ?S = Inr Z"
    by (simp add: matmul_def dS W_def Z_def)
  have tt: "transpose_m ?T = ?S"
    by (rule transpose_m_transpose_m [OF wf_sel_matrix])
  have sym: "sym_matmul ?T Y = Inr Z"
    by (simp add: sym_matmul_def 1 err_bind_Inr tt 2)
  have eb: "err_bind (matmul ?T Y) (\<lambda>x. matmul x ?S) = Inr Z"
    by (simp add: 1 err_bind_Inr 2)
  have wf: "wf_matrix Z"
    by (simp add: wf_matrix_def Z_def W_def dT list_all_iff)
  have Tent: "rows ?T ! i ! a = rows ?S ! a ! i" if "i < n" "a < ?k" for i a
    using that by (simp add: transpose_m_def sel_matrix_def)
  have Went: "rows W ! i ! b = (\<Sum>a\<leftarrow>[0..<?k]. rows ?S ! a ! i * rows Y ! a ! b)"
    if i: "i < n" and b: "b < ?k" for i b
  proof -
    have "rows W ! i ! b = (\<Sum>a\<leftarrow>[0..<?k]. rows ?T ! i ! a * rows Y ! a ! b)"
      using i b by (simp add: W_def dT)
    also have "\<dots> = (\<Sum>a\<leftarrow>[0..<?k]. rows ?S ! a ! i * rows Y ! a ! b)"
      by (rule sum_list_upt_cong) (simp add: Tent i)
    finally show ?thesis .
  qed
  have Zent: "rows Z ! i ! j = (\<Sum>b\<leftarrow>[0..<?k]. rows W ! i ! b * rows ?S ! b ! j)"
    if "i < n" "j < n" for i j
    using that by (simp add: Z_def W_def dT)
  have zero: "rows Z ! i ! j = 0"
    if i: "i < n" and j: "j < n" and out: "int i \<notin> set idx \<or> int j \<notin> set idx" for i j
    using out
  proof
    assume ni: "int i \<notin> set idx"
    have "rows W ! i ! b = 0" if b: "b < ?k" for b
    proof -
      have "(\<Sum>a\<leftarrow>[0..<?k]. rows ?S ! a ! i * rows Y ! a ! b) = (\<Sum>a\<leftarrow>[0..<?k]. 0)"
        by (rule sum_list_upt_cong) (simp add: sel_matrix_zero_column [OF idx i ni])
      then show ?thesis
        by (simp add: Went [OF i b])
    qed
    then have "(\<Sum>b\<leftarrow>[0..<?k]. rows W ! i ! b * rows ?S ! b ! j) = (\<Sum>b\<leftarrow>[0..<?k]. 0)"
      by (intro sum_list_upt_cong) simp
    then show ?thesis
      by (simp add: Zent [OF i j])
  next
    assume nj: "int j \<notin> set idx"
    have "(\<Sum>b\<leftarrow>[0..<?k]. rows W ! i ! b * rows ?S ! b ! j) = (\<Sum>b\<leftarrow>[0..<?k]. 0)"
      by (rule sum_list_upt_cong) (simp add: sel_matrix_zero_column [OF idx j nj])
    then show ?thesis
      by (simp add: Zent [OF i j])
  qed
  have "nrows Z = n" "ncols Z = n"
    by (simp_all add: Z_def)
  with sym eb wf zero show ?thesis
    by blast
qed


text \<open>Products of arrays whose entries are finite are the products over the reals.\<close>

lemma xsum_Some: "xsum (map (\<lambda>k. Some (f k)) ks) = Some (\<Sum>k\<leftarrow>ks. f k)"
  by (induction ks) (simp_all add: xsum_def xadd_def)

lemma xsum_upt_cong:
  "(\<And>k. k < n \<Longrightarrow> f k = g k) \<Longrightarrow> xsum (map f [0..<n]) = xsum (map g [0..<n])"
  by (rule arg_cong [where f = xsum]) simp

lemma wf_matrix_nth:
  "wf_matrix A \<Longrightarrow> i < nrows A \<Longrightarrow> length (rows A ! i) = ncols A"
  by (simp add: wf_matrix_def list_all_length)

lemma wf_matrix_length: "wf_matrix A \<Longrightarrow> length (rows A) = nrows A"
  by (simp add: wf_matrix_def)

lemma xmatmul_of_matrix:
  assumes A: "wf_matrix A" and B: "wf_matrix B" and C: "matmul A B = Inr C"
  shows "xmatmul (of_matrix A) (of_matrix B) = Inr (of_matrix C)"
proof -
  have d: "ncols A = nrows B"
    using C by (simp add: matmul_def split: if_splits)
  have Cr: "rows C = map (\<lambda>row. map (\<lambda>j. \<Sum>k\<leftarrow>[0..<nrows B]. row ! k * rows B ! k ! j)
                                     [0..<ncols B]) (rows A)"
    and Cd: "nrows C = nrows A" "ncols C = ncols B"
    using C d by (auto simp: matmul_def)
  have ent: "xmul (map Some row ! k) (map (map Some) (rows B) ! k ! j) =
             Some (row ! k * rows B ! k ! j)"
    if "length row = ncols A" "k < nrows B" "j < ncols B" for row k j
    using that d wf_matrix_nth [OF B, of k] wf_matrix_length [OF B]
    by (simp add: xmul_def)
  have row: "map (\<lambda>j. xsum (map (\<lambda>k. xmul (map Some row ! k) (map (map Some) (rows B) ! k ! j))
                                 [0..<nrows B])) [0..<ncols B] =
             map Some (map (\<lambda>j. \<Sum>k\<leftarrow>[0..<nrows B]. row ! k * rows B ! k ! j) [0..<ncols B])"
    if len: "length row = ncols A" for row
  proof -
    have "xsum (map (\<lambda>k. xmul (map Some row ! k) (map (map Some) (rows B) ! k ! j)) [0..<nrows B]) =
          Some (\<Sum>k\<leftarrow>[0..<nrows B]. row ! k * rows B ! k ! j)"
      if j: "j < ncols B" for j
    proof -
      have "xsum (map (\<lambda>k. xmul (map Some row ! k) (map (map Some) (rows B) ! k ! j))
                   [0..<nrows B]) =
            xsum (map (\<lambda>k. Some (row ! k * rows B ! k ! j)) [0..<nrows B])"
        by (rule xsum_upt_cong) (rule ent [OF len _ j])
      then show ?thesis
        by (simp only: xsum_Some)
    qed
    then show ?thesis
      by simp
  qed
  have "\<forall>row\<in>set (rows A). length row = ncols A"
    using A by (simp add: wf_matrix_def list_all_iff)
  then have "map (\<lambda>row. map (\<lambda>j. xsum (map (\<lambda>k. xmul (row ! k) (map (map Some) (rows B) ! k ! j))
                                                [0..<nrows B])) [0..<ncols B])
                 (map (map Some) (rows A)) =
             map (map Some) (rows C)"
    unfolding Cr by (simp add: row comp_def)
  then show ?thesis
    using d Cd by (simp add: xmatmul_def of_matrix_def)
qed

lemma wf_matmul: "wf_matrix A \<Longrightarrow> matmul A B = Inr C \<Longrightarrow> wf_matrix C"
  by (auto simp: matmul_def wf_matrix_def list_all_iff split: if_splits)

lemma wf_transpose_m: "wf_matrix A \<Longrightarrow> wf_matrix (transpose_m A)"
  by (auto simp: transpose_m_def wf_matrix_def list_all_iff)

lemma xsym_matmul_of_matrix:
  assumes S: "wf_matrix S" and Y: "wf_matrix Y" and Z: "sym_matmul S Y = Inr Z"
  shows "xsym_matmul S (of_matrix Y) = Inr (of_matrix Z)"
proof -
  from Z obtain W where W: "matmul S Y = Inr W" and WZ: "matmul W (transpose_m S) = Inr Z"
    by (auto simp: sym_matmul_def err_bind_def split: sum.splits)
  have 1: "xmatmul (of_matrix S) (of_matrix Y) = Inr (of_matrix W)"
    by (rule xmatmul_of_matrix [OF S Y W])
  have 2: "xmatmul (of_matrix W) (of_matrix (transpose_m S)) = Inr (of_matrix Z)"
    by (rule xmatmul_of_matrix [OF wf_matmul [OF S W] wf_transpose_m [OF S] WZ])
  show ?thesis
    by (simp add: xsym_matmul_def 1 2 err_bind_Inr)
qed

lemma xsym_matmul_defined:
  "xnrows Y = ncols S \<Longrightarrow> xncols Y = ncols S \<Longrightarrow> \<exists>Z. xsym_matmul S Y = Inr Z"
  by (simp add: xsym_matmul_def xmatmul_def of_matrix_def transpose_m_def err_bind_Inr)
section \<open>Inverses of Gram submatrices\<close>

lemma wf_submatr: "wf_matrix (submatr gram idx)"
  by (simp add: wf_matrix_def submatr_def list_all_iff)

text \<open>
  Claim C2.  For a square \<open>gram\<close> and a row \<open>s\<close> of \<open>train_idcs\<close> of \<open>k\<close> indices,
  the extracted submatrix \<open>sel @ gram @ sel.T\<close> is the principal submatrix of \<open>gram\<close> on
  the sorted indices of the row.  With an inversion kernel that returns a left inverse
  of every non-singular \<open>k\<close>-by-\<open>k\<close> matrix: if that submatrix is non-singular, the
  matrix that \<open>invert_submatr\<close> with \<open>zerofill = False\<close> returns for the row,
  multiplied by the submatrix, is the \<open>k\<close>-by-\<open>k\<close> identity.
\<close>

theorem invert_submatr_inverse:
  assumes gram: "wf_matrix gram" "ncols gram = nrows gram"
    and idx: "\<forall>vi\<in>set train_idcs. \<forall>c\<in>set vi. 0 \<le> sint c \<and> sint c < int (nrows gram)"
    and s: "s < length train_idcs"
    and kernel: "\<forall>B. wf_matrix B \<and> nrows B = length (train_idcs ! s) \<and>
                    ncols B = length (train_idcs ! s) \<and>
                    (\<exists>C. matmul C B = Inr (identity (length (train_idcs ! s)))) \<longrightarrow>
                    xmatmul (linalg_inv B) (of_matrix B) =
                      Inr (of_matrix (identity (length (train_idcs ! s))))"
    and nonsingular: "\<exists>C. matmul C (submatr gram (idx_of (train_idcs ! s))) =
                        Inr (identity (length (train_idcs ! s)))"
  shows "\<exists>sel R. idcs_to_selection_matr (int (nrows gram)) train_idcs False = Inr sel \<and>
           sym_matmul (sel ! s) gram = Inr (submatr gram (idx_of (train_idcs ! s))) \<and>
           invert_submatr linalg_inv gram train_idcs False = Inr R \<and>
           length R = length train_idcs \<and>
           xmatmul (R ! s) (of_matrix (submatr gram (idx_of (train_idcs ! s)))) =
             Inr (of_matrix (identity (length (train_idcs ! s))))"
proof -
  let ?sub = "submatr gram (idx_of (train_idcs ! s))"
  let ?sel = "map (\<lambda>vi. sel_matrix (nrows gram) (idx_of vi)) train_idcs"
  let ?R = "map (\<lambda>vi. linalg_inv (submatr gram (idx_of vi))) train_idcs"
  have 1: "idcs_to_selection_matr (int (nrows gram)) train_idcs False = Inr ?sel"
    by (rule idcs_to_selection_matr_sel [OF idx])
  have "train_idcs ! s \<in> set train_idcs"
    using s by simp
  then have "\<forall>c\<in>set (idx_of (train_idcs ! s)). 0 \<le> c \<and> c < int (nrows gram)"
    using idx by (intro idx_of_range) simp
  then have 2: "sym_matmul (?sel ! s) gram = Inr ?sub"
    using sym_matmul_sel [OF gram(1) refl gram(2)] s by simp
  have 3: "invert_submatr linalg_inv gram train_idcs False = Inr ?R"
    by (rule invert_submatr_raw [OF gram idx])
  have "wf_matrix ?sub \<and> nrows ?sub = length (train_idcs ! s) \<and>
        ncols ?sub = length (train_idcs ! s)"
    by (simp add: wf_submatr) (simp add: submatr_def length_idx_of)
  with kernel nonsingular
  have "xmatmul (linalg_inv ?sub) (of_matrix ?sub) =
        Inr (of_matrix (identity (length (train_idcs ! s))))"
    by blast
  then have 4: "xmatmul (?R ! s) (of_matrix ?sub) =
                Inr (of_matrix (identity (length (train_idcs ! s))))"
    using s by simp
  from 1 2 3 4 show ?thesis
    by (metis length_map)
qed

lemma reciprocal_inverts:
  assumes wf: "wf_matrix B" and d: "nrows B = 1" "ncols B = 1"
    and ex: "\<exists>C. matmul C B = Inr (identity 1)"
  shows "xmatmul \<lparr>xnrows = nrows B, xncols = ncols B,
                  xrows = map (map (\<lambda>v. if v = 0 then None else Some (1 / v))) (rows B)\<rparr>
           (of_matrix B) = Inr (of_matrix (identity 1))"
proof -
  from wf d obtain r where r: "rows B = [r]" "length r = 1"
    by (auto simp: wf_matrix_def length_Suc_conv)
  then obtain b where b: "rows B = [[b]]"
    by (auto simp: length_Suc_conv)
  from ex obtain C where C: "matmul C B = Inr (identity 1)"
    by blast
  then have "map (\<lambda>row. [row ! 0 * b]) (rows C) = [[1]]"
    by (simp add: matmul_def identity_def d b split: if_splits)
  then obtain row where "row ! 0 * b = 1"
    by (cases "rows C") auto
  then have "b \<noteq> 0"
    by auto
  then show ?thesis
    by (simp add: xmatmul_def of_matrix_def identity_def d b xsum_def xadd_def xmul_def)
qed

theorem invert_submatr_inverse_witness:
  "\<exists>R. invert_submatr
          (\<lambda>B. \<lparr>xnrows = nrows B, xncols = ncols B,
                xrows = map (map (\<lambda>v. if v = 0 then None else Some (1 / v))) (rows B)\<rparr>)
          \<lparr>nrows = 2, ncols = 2, rows = [[2, 1], [1, 4]]\<rparr> [[0], [1]] False = Inr R \<and>
        length R = 2 \<and>
        xmatmul (R ! 1) (of_matrix \<lparr>nrows = 1, ncols = 1, rows = [[4]]\<rparr>) =
          Inr (of_matrix (identity 1))"
proof -
  let ?inv = "\<lambda>B. \<lparr>xnrows = nrows B, xncols = ncols B,
                   xrows = map (map (\<lambda>v. if v = 0 then None else Some (1 / v))) (rows B)\<rparr>"
  let ?gram = "\<lparr>nrows = 2, ncols = 2, rows = [[2, 1], [1, 4]]\<rparr>"
  let ?idcs = "[[0], [1]] :: int32 list list"
  have sub: "submatr ?gram (idx_of (?idcs ! 1)) = \<lparr>nrows = 1, ncols = 1, rows = [[4]]\<rparr>"
    by (simp add: submatr_def idx_of_def)
  have g: "wf_matrix ?gram" "ncols ?gram = nrows ?gram"
    by (simp_all add: wf_matrix_def)
  have r: "\<forall>vi\<in>set ?idcs. \<forall>c\<in>set vi. 0 \<le> sint c \<and> sint c < int (nrows ?gram)"
    by simp
  have s: "1 < length ?idcs"
    by simp
  have k: "\<forall>B. wf_matrix B \<and> nrows B = length (?idcs ! 1) \<and> ncols B = length (?idcs ! 1) \<and>
              (\<exists>C. matmul C B = Inr (identity (length (?idcs ! 1)))) \<longrightarrow>
              xmatmul (?inv B) (of_matrix B) = Inr (of_matrix (identity (length (?idcs ! 1))))"
    using reciprocal_inverts by simp
  have "matmul \<lparr>nrows = 1, ncols = 1, rows = [[1 / 4]]\<rparr> \<lparr>nrows = 1, ncols = 1, rows = [[4]]\<rparr> =
        Inr (identity 1)"
    by (simp add: matmul_def identity_def)
  then have n: "\<exists>C. matmul C (submatr ?gram (idx_of (?idcs ! 1))) =
                  Inr (identity (length (?idcs ! 1)))"
    unfolding sub by (intro exI) simp
  from invert_submatr_inverse
         [where linalg_inv = ?inv and gram = ?gram and train_idcs = ?idcs and s = 1,
          OF g r s k n]
       sub
  show ?thesis
    by auto
qed

section \<open>Embedding the inverses into the full shape\<close>

lemma invert_submatr_zerofill:
  assumes gram: "wf_matrix gram" "ncols gram = nrows gram"
    and idx: "\<forall>vi\<in>set idcs. \<forall>c\<in>set vi. 0 \<le> sint c \<and> sint c < int (nrows gram)"
  shows "invert_submatr f gram idcs True =
         mapM (\<lambda>vi. xsym_matmul (transpose_m (sel_matrix (nrows gram) (idx_of vi)))
                      (f (submatr gram (idx_of vi)))) idcs"
proof -
  let ?sel = "map (\<lambda>vi. sel_matrix (nrows gram) (idx_of vi)) idcs"
  have idx': "\<forall>vi\<in>set (map idx_of idcs). \<forall>c\<in>set vi. 0 \<le> c \<and> c < int (nrows gram)"
    using idx by (auto simp: set_idx_of)
  have 1: "idcs_to_selection_matr (int (nrows gram)) idcs False = Inr ?sel"
    by (rule idcs_to_selection_matr_sel [OF idx])
  have "sym_matmul_fixed_inp (map (sel_matrix (nrows gram)) (map idx_of idcs)) gram =
        Inr (map (submatr gram) (map idx_of idcs))"
    by (rule sym_matmul_fixed_inp_sel [OF gram(1) refl gram(2) idx'])
  then have 2: "sym_matmul_fixed_inp ?sel gram =
        Inr (map (\<lambda>vi. submatr gram (idx_of vi)) idcs)"
    by (simp add: comp_def)
  have z: "zip (map transpose_m ?sel) (map (\<lambda>vi. f (submatr gram (idx_of vi))) idcs) =
           map (\<lambda>vi. (transpose_m (sel_matrix (nrows gram) (idx_of vi)),
                       f (submatr gram (idx_of vi)))) idcs"
    by (simp add: zip_map_map zip_same_conv_map comp_def)
  have 3: "sym_matmul_variable_inp (map transpose_m ?sel)
             (map (\<lambda>vi. f (submatr gram (idx_of vi))) idcs) =
           mapM (\<lambda>vi. xsym_matmul (transpose_m (sel_matrix (nrows gram) (idx_of vi)))
                        (f (submatr gram (idx_of vi)))) idcs"
    unfolding sym_matmul_variable_inp_def z mapM_map by simp
  show ?thesis
    by (simp only: invert_submatr_def 1 2 3 err_bind_Inr vinvert_submatr if_True)
qed

lemma invert_submatr_zerofill_returns:
  assumes gram: "wf_matrix gram" "ncols gram = nrows gram"
    and idx: "\<forall>vi\<in>set idcs. \<forall>c\<in>set vi. 0 \<le> sint c \<and> sint c < int (nrows gram)"
    and shape: "\<forall>vi\<in>set idcs. xnrows (f (submatr gram (idx_of vi))) = length vi \<and>
                               xncols (f (submatr gram (idx_of vi))) = length vi"
  shows "\<exists>R. invert_submatr f gram idcs True = Inr R \<and> length R = length idcs"
proof -
  let ?g = "\<lambda>vi. xsym_matmul (transpose_m (sel_matrix (nrows gram) (idx_of vi)))
                   (f (submatr gram (idx_of vi)))"
  have each: "\<exists>Z. ?g vi = Inr Z" if vi: "vi \<in> set idcs" for vi
    using shape vi
    by (intro xsym_matmul_defined) (simp_all add: transpose_m_def sel_matrix_def length_idx_of)
  have "\<exists>R. mapM ?g idcs = Inr R"
    by (rule mapM_total) (rule each)
  then obtain R where R: "mapM ?g idcs = Inr R"
    by blast
  then have "length R = length idcs"
    by (simp add: mapM_Inr_iff)
  with R invert_submatr_zerofill [OF gram idx, of f] show ?thesis
    by simp
qed

text \<open>
  Where the kernel's result for a split is finite, the embedded matrix is zero at
  every position whose row or column is not an index of the split.
\<close>

lemma invert_submatr_zerofill_finite:
  assumes gram: "wf_matrix gram" "ncols gram = nrows gram"
    and idx: "\<forall>vi\<in>set train_idcs. \<forall>c\<in>set vi. 0 \<le> sint c \<and> sint c < int (nrows gram)"
    and s: "s < length train_idcs"
    and shape: "\<forall>vi\<in>set train_idcs.
                  xnrows (linalg_inv (submatr gram (idx_of vi))) = length vi \<and>
                  xncols (linalg_inv (submatr gram (idx_of vi))) = length vi"
    and finite: "linalg_inv (submatr gram (idx_of (train_idcs ! s))) = of_matrix Y" "wf_matrix Y"
  shows "\<exists>R Z. invert_submatr linalg_inv gram train_idcs True = Inr R \<and>
           length R = length train_idcs \<and> R ! s = of_matrix Z \<and>
           nrows Z = nrows gram \<and> ncols Z = nrows gram \<and>
           (\<forall>i<nrows gram. \<forall>j<nrows gram.
              int i \<notin> sint ` set (train_idcs ! s) \<or> int j \<notin> sint ` set (train_idcs ! s) \<longrightarrow>
              rows Z ! i ! j = 0)"
proof -
  let ?n = "nrows gram"
  let ?vi = "train_idcs ! s"
  let ?T = "transpose_m (sel_matrix ?n (idx_of ?vi))"
  let ?g = "\<lambda>vi. xsym_matmul (transpose_m (sel_matrix ?n (idx_of vi)))
                   (linalg_inv (submatr gram (idx_of vi)))"
  have mem: "?vi \<in> set train_idcs"
    using s by simp
  from invert_submatr_zerofill_returns [OF gram idx shape]
  obtain R where R: "invert_submatr linalg_inv gram train_idcs True = Inr R"
    and len: "length R = length train_idcs"
    by blast
  from R have "mapM ?g train_idcs = Inr R"
    by (simp add: invert_submatr_zerofill [OF gram idx])
  then have Rs: "?g ?vi = Inr (R ! s)"
    using s by (simp add: mapM_Inr_iff)
  have r: "\<forall>c\<in>set (idx_of ?vi). 0 \<le> c \<and> c < int ?n"
    using idx mem by (intro idx_of_range) simp
  have d: "nrows Y = length (idx_of ?vi)" "ncols Y = length (idx_of ?vi)"
    using shape mem finite(1) by (auto simp: of_matrix_def length_idx_of)
  from zerofill_split [OF d r]
  obtain Z where Z: "sym_matmul ?T Y = Inr Z" "nrows Z = ?n" "ncols Z = ?n"
    and zero: "\<forall>i<?n. \<forall>j<?n. int i \<notin> set (idx_of ?vi) \<or> int j \<notin> set (idx_of ?vi) \<longrightarrow>
                 rows Z ! i ! j = 0"
    by blast
  have "wf_matrix ?T"
    by (intro wf_transpose_m wf_sel_matrix)
  then have "xsym_matmul ?T (of_matrix Y) = Inr (of_matrix Z)"
    using finite(2) Z(1) by (rule xsym_matmul_of_matrix)
  with Rs finite(1) have "R ! s = of_matrix Z"
    by simp
  with R len Z(2,3) zero show ?thesis
    unfolding set_idx_of by blast
qed

text \<open>
  Claim C3 says that the matrix of a split that \<open>invert_submatr\<close> returns with
  \<open>zerofill = True\<close> is zero wherever the row or the column is not an index of the
  split, and the docstring of the function says the same (non-selected rows and
  columns are filled with zero).  The code does not fill: it multiplies the kernel's
  result by the selection matrix on both sides, and a product with an entry that is
  not finite is not finite, also where the other factor is zero.  For the Gram matrix
  \<open>[[0, 1], [1, 4]]\<close> and the index row \<open>[0]\<close> the submatrix is \<open>[[0]]\<close>, the kernel
  (on 1-by-1 matrices the reciprocal, which is not finite at zero) returns an entry
  that is not finite, and no entry of the 2-by-2 result is zero, row 1 and column 1
  included, which are not indices of the split.
\<close>

theorem invert_submatr_zerofill_not_zero:
  "invert_submatr
     (\<lambda>B. \<lparr>xnrows = nrows B, xncols = ncols B,
           xrows = map (map (\<lambda>v. if v = 0 then None else Some (1 / v))) (rows B)\<rparr>)
     \<lparr>nrows = 2, ncols = 2, rows = [[0, 1], [1, 4]]\<rparr> [[0]] True =
   Inr [\<lparr>xnrows = 2, xncols = 2, xrows = [[None, None], [None, None]]\<rparr>]"
proof -
  let ?G = "\<lparr>nrows = 2, ncols = 2, rows = [[0, 1], [1, 4]]\<rparr>"
  let ?Z = "\<lparr>nrows = 1, ncols = 1, rows = [[0]]\<rparr>"
  let ?inv = "\<lambda>B. \<lparr>xnrows = nrows B, xncols = ncols B,
                   xrows = map (map (\<lambda>v. if v = 0 then None else Some (1 / v))) (rows B)\<rparr>"
  have sel: "idcs_to_selection_matr (int (nrows ?G)) [[0]] False =
             Inr [\<lparr>nrows = 1, ncols = 2, rows = [[1, 0]]\<rparr>]"
    by code_simp
  have sub: "sym_matmul_fixed_inp [\<lparr>nrows = 1, ncols = 2, rows = [[1, 0]]\<rparr>] ?G = Inr [?Z]"
    by code_simp
  have i: "vinvert ?inv [?Z] = Inr [\<lparr>xnrows = 1, xncols = 1, xrows = [[None]]\<rparr>]"
    by (simp add: vinvert_def)
  have fill: "sym_matmul_variable_inp (map transpose_m [\<lparr>nrows = 1, ncols = 2, rows = [[1, 0]]\<rparr>])
                [\<lparr>xnrows = 1, xncols = 1, xrows = [[None]]\<rparr>] =
              Inr [\<lparr>xnrows = 2, xncols = 2, xrows = [[None, None], [None, None]]\<rparr>]"
    by code_simp
  show ?thesis
    by (simp only: invert_submatr_def sel sub i fill err_bind_Inr if_True)
qed
section \<open>Broadcasting\<close>

lemma concat_chunks_take: "concat (chunks sz cnt d) = take (cnt * sz) d"
proof (induction cnt)
  case 0
  then show ?case by (simp add: chunks_def)
next
  case (Suc cnt)
  have "concat (chunks sz (Suc cnt) d) = concat (chunks sz cnt d) @ take sz (drop (cnt * sz) d)"
    by (simp add: chunks_def)
  also have "\<dots> = take (cnt * sz + sz) d"
    by (simp add: Suc.IH take_add)
  finally show ?case by (simp add: add.commute)
qed

lemma concat_chunks: "length d = cnt * sz \<Longrightarrow> concat (chunks sz cnt d) = d"
  by (simp add: concat_chunks_take)

lemma length_chunk: "length d = cnt * sz \<Longrightarrow> ch \<in> set (chunks sz cnt d) \<Longrightarrow> length ch = sz"
proof -
  assume d: "length d = cnt * sz" and "ch \<in> set (chunks sz cnt d)"
  then obtain i where i: "i < cnt" and ch: "ch = take sz (drop (i * sz) d)"
    by (auto simp: chunks_def)
  have "Suc i * sz \<le> cnt * sz"
    using i by (intro mult_le_mono1) simp
  then have "sz \<le> cnt * sz - i * sz"
    by simp
  then show "length ch = sz"
    by (simp add: ch d)
qed

lemma expand_id: "length d = prod_list s \<Longrightarrow> expand s s d = d"
proof (induction s arbitrary: d)
  case Nil
  then show ?case by simp
next
  case (Cons t ts)
  show ?case
  proof (cases "t = 1")
    case True
    then show ?thesis using Cons by simp
  next
    case False
    have len: "length d = t * prod_list ts"
      using Cons.prems by simp
    have "map (expand ts ts) (chunks (prod_list ts) t d) = chunks (prod_list ts) t d"
      by (rule map_idI) (simp add: Cons.IH length_chunk [OF len])
    then show ?thesis
      using False by (simp add: concat_chunks [OF len])
  qed
qed

lemma nth_chunk_concat:
  "i < length rs \<Longrightarrow> \<forall>r\<in>set rs. length r = sz \<Longrightarrow>
   take sz (drop (i * sz) (concat rs)) = rs ! i"
proof (induction rs arbitrary: i)
  case Nil
  then show ?case by simp
next
  case (Cons r rs)
  show ?case
  proof (cases i)
    case 0
    then show ?thesis using Cons.prems by simp
  next
    case (Suc i')
    then show ?thesis using Cons by simp
  qed
qed

lemma chunks_concat:
  "\<forall>r\<in>set rs. length r = sz \<Longrightarrow> chunks sz (length rs) (concat rs) = rs"
  by (rule nth_equalityI) (simp_all add: chunks_def nth_chunk_concat)

lemma map2_concat_map:
  "(\<And>i. i \<in> set js \<Longrightarrow> length (f i) = length (g i)) \<Longrightarrow>
   map2 h (concat (map f js)) (concat (map g js)) = concat (map (\<lambda>i. map2 h (f i) (g i)) js)"
  by (induction js) simp_all

lemma map2_table:
  "map2 h (concat (rows (table n f))) (concat (rows (table n g))) =
   concat (rows (table n (\<lambda>i j. h (f i j) (g i j))))"
proof -
  have "map2 h (map (f i) [0..<n]) (map (g i) [0..<n]) = map (\<lambda>j. h (f i j) (g i j)) [0..<n]" for i
    by (simp add: zip_map_map zip_same_conv_map)
  then show ?thesis
    by (simp add: table_def map2_concat_map comp_def)
qed

lemma length_table: "length (concat (rows (table n f))) = n * n"
  by (simp add: table_def length_concat comp_def sum_list_triv)

lemma wf_matrix_table:
  "wf_matrix K \<Longrightarrow> nrows K = n \<Longrightarrow> ncols K = n \<Longrightarrow> K = table n (\<lambda>i j. rows K ! i ! j)"
proof -
  assume wf: "wf_matrix K" and n: "nrows K = n" "ncols K = n"
  have len: "length (rows K) = n" and row: "\<And>i. i < n \<Longrightarrow> length (rows K ! i) = n"
    using wf n by (simp_all add: wf_matrix_def list_all_length)
  have "map (\<lambda>i. map (\<lambda>j. rows K ! i ! j) [0..<n]) [0..<n] = rows K"
  proof (rule nth_equalityI)
    show "length (map (\<lambda>i. map (\<lambda>j. rows K ! i ! j) [0..<n]) [0..<n]) = length (rows K)"
      by (simp add: len)
  next
    fix i assume "i < length (map (\<lambda>i. map (\<lambda>j. rows K ! i ! j) [0..<n]) [0..<n])"
    then have i: "i < n" by simp
    have "map (\<lambda>j. rows K ! i ! j) [0..<n] = rows K ! i"
      using row [OF i] map_nth [of "rows K ! i"] by simp
    then show "map (\<lambda>i. map (\<lambda>j. rows K ! i ! j) [0..<n]) [0..<n] ! i = rows K ! i"
      using i by simp
  qed
  then show ?thesis
    using n by (simp add: table_def)
qed

lemma eye_table: "eye n = nd_of_matrix (table n (\<lambda>i j. if i = j then 1 else 0))"
  by (simp add: eye_def identity_def table_def)

lemma broadcast_to_square:
  "broadcast_to [n, n] (nd_of_matrix (table n f)) = concat (rows (table n f))"
proof -
  have "expand [n, n] [n, n] (concat (rows (table n f))) = concat (rows (table n f))"
    by (rule expand_id) (simp add: length_table)
  then show ?thesis
    by (simp add: broadcast_to_def nd_of_matrix_def table_def)
qed

lemma broadcast_to_scalar:
  "broadcast_to [n, n] (nd_scalar x) = concat (rows (table n (\<lambda>i j. x)))"
proof -
  have "concat (replicate n (concat (replicate n [x]))) =
        concat (map (\<lambda>i. map (\<lambda>j. x) [0..<n]) [0..<n])"
    by (simp add: map_replicate_const)
  then show ?thesis
    by (simp add: broadcast_to_def nd_scalar_def table_def)
qed

lemma expand_vector: "length xs = n \<Longrightarrow> expand [n] [n] xs = xs"
  using expand_id [of xs "[n]"] by simp

lemma broadcast_to_vector:
  assumes "length xs = n"
  shows "broadcast_to [n, n] \<lparr>shape = [n], data = xs\<rparr> = concat (rows (table n (\<lambda>i j. xs ! j)))"
proof -
  have "map (\<lambda>j. xs ! j) [0..<n] = xs"
    using assms map_nth [of xs] by simp
  then have t: "concat (replicate n xs) = concat (rows (table n (\<lambda>i j. xs ! j)))"
    by (simp add: map_replicate_const table_def)
  have "broadcast_to [n, n] \<lparr>shape = [n], data = xs\<rparr> = expand [n, n] [1, n] xs"
    by (simp add: broadcast_to_def)
  also have "\<dots> = concat (replicate n (expand [n] [n] xs))"
    by simp
  also have "\<dots> = concat (replicate n xs)"
    by (simp only: expand_vector [OF assms])
  finally show ?thesis
    using t by simp
qed

lemma nd_of_table:
  "nd_of_matrix (table n g) = \<lparr>shape = [n, n], data = concat (rows (table n g))\<rparr>"
  by (simp add: nd_of_matrix_def table_def)

lemma nd_linalg_inv_eq:
  assumes "shape a = [n, n]" "length (data a) = n * n"
  shows "nd_linalg_inv f a =
     Inr \<lparr>shape = [n, n],
          data = concat (rows (f \<lparr>nrows = n, ncols = n, rows = chunks n n (data a)\<rparr>))\<rparr>"
proof -
  have "chunks (n * n) 1 (data a) = [data a]"
    by (simp add: chunks_def assms)
  then show ?thesis
    by (simp add: nd_linalg_inv_def assms)
qed

lemma nd_linalg_inv_square:
  "nd_linalg_inv f (nd_of_matrix (table n g)) =
     Inr \<lparr>shape = [n, n], data = concat (rows (f (table n g)))\<rparr>"
proof -
  let ?d = "concat (rows (table n g))"
  have rs: "\<forall>r\<in>set (rows (table n g)). length r = n" "length (rows (table n g)) = n"
    by (simp_all add: table_def)
  have 2: "chunks n n ?d = rows (table n g)"
    using chunks_concat [OF rs(1)] rs(2) by simp
  have 3: "\<lparr>nrows = n, ncols = n, rows = rows (table n g)\<rparr> = table n g"
    by (simp add: table_def)
  have "nd_linalg_inv f (nd_of_matrix (table n g)) =
     Inr \<lparr>shape = [n, n],
          data = concat (rows (f \<lparr>nrows = n, ncols = n,
                                    rows = chunks n n (data (nd_of_matrix (table n g)))\<rparr>))\<rparr>"
    by (rule nd_linalg_inv_eq) (simp_all add: nd_of_table length_table)
  also have "data (nd_of_matrix (table n g)) = ?d"
    by (simp add: nd_of_table)
  finally show ?thesis
    by (simp only: 2 3)
qed

lemma nd_binop_eq:
  "broadcast_shapes (shape a) (shape b) = Some sh \<Longrightarrow>
   nd_binop f a b = Inr \<lparr>shape = sh, data = map2 f (broadcast_to sh a) (broadcast_to sh b)\<rparr>"
  by (simp add: nd_binop_def)

lemma nd_mul_scalar_eye:
  "nd_binop (*) (nd_scalar x) (eye n) =
     Inr (nd_of_matrix (table n (\<lambda>i j. x * (if i = j then 1 else 0))))"
proof -
  have "nd_binop (*) (nd_scalar x) (eye n) =
        Inr \<lparr>shape = [n, n],
             data = map2 (*) (broadcast_to [n, n] (nd_scalar x)) (broadcast_to [n, n] (eye n))\<rparr>"
    by (rule nd_binop_eq)
      (simp add: broadcast_shapes_def nd_scalar_def eye_table nd_of_table)
  moreover have "map2 (*) (broadcast_to [n, n] (nd_scalar x)) (broadcast_to [n, n] (eye n)) =
        concat (rows (table n (\<lambda>i j. x * (if i = j then 1 else 0))))"
    by (simp only: eye_table broadcast_to_scalar broadcast_to_square map2_table)
  ultimately show ?thesis
    by (simp only: nd_of_table)
qed

lemma nd_mul_vector_eye:
  assumes "length xs = n"
  shows "nd_binop (*) \<lparr>shape = [n], data = xs\<rparr> (eye n) =
     Inr (nd_of_matrix (table n (\<lambda>i j. xs ! j * (if i = j then 1 else 0))))"
proof -
  have "nd_binop (*) \<lparr>shape = [n], data = xs\<rparr> (eye n) =
        Inr \<lparr>shape = [n, n],
             data = map2 (*) (broadcast_to [n, n] \<lparr>shape = [n], data = xs\<rparr>)
                      (broadcast_to [n, n] (eye n))\<rparr>"
    by (rule nd_binop_eq) (simp add: broadcast_shapes_def eye_table nd_of_table)
  moreover have "map2 (*) (broadcast_to [n, n] \<lparr>shape = [n], data = xs\<rparr>)
                      (broadcast_to [n, n] (eye n)) =
        concat (rows (table n (\<lambda>i j. xs ! j * (if i = j then 1 else 0))))"
    by (simp only: eye_table broadcast_to_vector [OF assms] broadcast_to_square map2_table)
  ultimately show ?thesis
    by (simp only: nd_of_table)
qed

lemma nd_add_square:
  "nd_binop (+) (nd_of_matrix (table n f)) (nd_of_matrix (table n g)) =
     Inr (nd_of_matrix (table n (\<lambda>i j. f i j + g i j)))"
proof -
  have "nd_binop (+) (nd_of_matrix (table n f)) (nd_of_matrix (table n g)) =
        Inr \<lparr>shape = [n, n],
             data = map2 (+) (broadcast_to [n, n] (nd_of_matrix (table n f)))
                      (broadcast_to [n, n] (nd_of_matrix (table n g)))\<rparr>"
    by (rule nd_binop_eq) (simp add: broadcast_shapes_def nd_of_table)
  moreover have "map2 (+) (broadcast_to [n, n] (nd_of_matrix (table n f)))
                      (broadcast_to [n, n] (nd_of_matrix (table n g))) =
        concat (rows (table n (\<lambda>i j. f i j + g i j)))"
    by (simp only: broadcast_to_square map2_table)
  ultimately show ?thesis
    by (simp only: nd_of_table [of n "\<lambda>i j. f i j + g i j"])
qed

lemma ridge_solve:
  assumes K: "wf_matrix K" "nrows K = n" "ncols K = n"
    and mul: "nd_binop (*) regul (eye n) =
              Inr (nd_of_matrix (table n (\<lambda>i j. r j * (if i = j then 1 else 0))))"
  shows "err_bind (nd_binop (*) regul (eye n)) (\<lambda>d.
         err_bind (nd_binop (+) (nd_of_matrix K) d) (\<lambda>s.
         err_bind (nd_linalg_inv f s) (\<lambda>matr. Inr (g matr)))) =
         Inr (g \<lparr>shape = [n, n], data = concat (rows (f (ridge K n r)))\<rparr>)"
proof -
  have Kt: "nd_of_matrix K = nd_of_matrix (table n (\<lambda>i j. rows K ! i ! j))"
    using wf_matrix_table [OF K] by simp
  show ?thesis
    by (simp only: mul err_bind_Inr Kt nd_add_square nd_linalg_inv_square ridge_def)
qed

lemma regul_assert_scalar: "regul_assert (nd_scalar x) n"
  by (simp add: regul_assert_def squeeze_def nd_size_def nd_scalar_def)

lemma regul_assert_vector: "regul_assert \<lparr>shape = [n], data = xs\<rparr> n"
  by (simp add: regul_assert_def squeeze_def nd_size_def)

section \<open>Ridge regression operator\<close>

text \<open>
  Claim C6.  For every \<open>inp_feat\<close> whose Gram matrix \<open>K = inp_feat.inner()\<close> is square
  of size \<open>len(inp_feat)\<close> and every \<open>outp_feat\<close>: with \<open>regul = None\<close>, \<open>RidgeCmo\<close>
  takes the regularisation \<open>Cov_regul(1, len(inp_feat))\<close>; and with that default, with
  a scalar \<open>regul\<close> and with a vector \<open>regul\<close> of length \<open>len(inp_feat)\<close> it returns
  \<open>FiniteOp(inp_feat, outp_feat, matr)\<close>, where \<open>matr\<close> is the result of the dense
  inversion kernel on \<open>K + regul * I\<close>.
\<close>

theorem RidgeCmo_operator:
  assumes K: "wf_matrix K" "nrows K = len E inp_feat" "ncols K = len E inp_feat"
    and inner: "inner E inp_feat = nd_of_matrix K"
  shows "RidgeCmo E linalg_inv inp_feat outp_feat None =
           Inr (FiniteOp E inp_feat outp_feat
                  \<lparr>shape = [len E inp_feat, len E inp_feat],
                   data = concat (rows (linalg_inv
                     (ridge K (len E inp_feat) (\<lambda>j. Cov_regul E 1 (len E inp_feat)))))\<rparr>) \<and>
         RidgeCmo E linalg_inv inp_feat outp_feat (Some (nd_scalar x)) =
           Inr (FiniteOp E inp_feat outp_feat
                  \<lparr>shape = [len E inp_feat, len E inp_feat],
                   data = concat (rows (linalg_inv (ridge K (len E inp_feat) (\<lambda>j. x))))\<rparr>) \<and>
         (length xs = len E inp_feat \<longrightarrow>
          RidgeCmo E linalg_inv inp_feat outp_feat (Some \<lparr>shape = [len E inp_feat], data = xs\<rparr>) =
           Inr (FiniteOp E inp_feat outp_feat
                  \<lparr>shape = [len E inp_feat, len E inp_feat],
                   data = concat (rows (linalg_inv (ridge K (len E inp_feat) (\<lambda>j. xs ! j))))\<rparr>))"
proof -
  let ?n = "len E inp_feat"
  have none: "RidgeCmo E linalg_inv inp_feat outp_feat None =
           Inr (FiniteOp E inp_feat outp_feat
                  \<lparr>shape = [?n, ?n],
                   data = concat (rows (linalg_inv (ridge K ?n (\<lambda>j. Cov_regul E 1 ?n))))\<rparr>)"
    unfolding RidgeCmo_def inner option.case err_bind_Inr
    by (rule ridge_solve [OF K nd_mul_scalar_eye])
  have scalar: "RidgeCmo E linalg_inv inp_feat outp_feat (Some (nd_scalar x)) =
           Inr (FiniteOp E inp_feat outp_feat
                  \<lparr>shape = [?n, ?n], data = concat (rows (linalg_inv (ridge K ?n (\<lambda>j. x))))\<rparr>)"
    unfolding RidgeCmo_def inner option.case if_P [OF regul_assert_scalar] err_bind_Inr
    by (rule ridge_solve [OF K nd_mul_scalar_eye])
  have vector: "RidgeCmo E linalg_inv inp_feat outp_feat (Some \<lparr>shape = [?n], data = xs\<rparr>) =
           Inr (FiniteOp E inp_feat outp_feat
                  \<lparr>shape = [?n, ?n], data = concat (rows (linalg_inv (ridge K ?n (\<lambda>j. xs ! j))))\<rparr>)"
    if len: "length xs = ?n"
    unfolding RidgeCmo_def inner option.case if_P [OF regul_assert_vector] err_bind_Inr
    by (rule ridge_solve [OF K nd_mul_vector_eye [OF len]])
  from none scalar vector show ?thesis
    by blast
qed

theorem RidgeCmo_operator_witness:
  "RidgeCmo \<lparr>len = \<lambda>v. hd (shape v), inner = \<lambda>v. v, Cov_regul = \<lambda>a b. 1, CovOp = \<lambda>v. v,
             Cov_solve = \<lambda>c b r. b, CrossCovOp = \<lambda>a b. a, FiniteOp = \<lambda>a b m. m\<rparr>
     (\<lambda>B. let a = rows B ! 0 ! 0; b = rows B ! 0 ! 1; c = rows B ! 1 ! 0; d = rows B ! 1 ! 1
          in \<lparr>nrows = 2, ncols = 2,
              rows = [[d / (a * d - b * c), - b / (a * d - b * c)],
                      [- c / (a * d - b * c), a / (a * d - b * c)]]\<rparr>)
     \<lparr>shape = [2, 2], data = [2, 1, 1, 2]\<rparr> \<lparr>shape = [2, 2], data = [1, 0, 0, 1]\<rparr> None =
   Inr \<lparr>shape = [2, 2], data = [3 / 8, - 1 / 8, - 1 / 8, 3 / 8]\<rparr> \<and>
   RidgeCmo \<lparr>len = \<lambda>v. hd (shape v), inner = \<lambda>v. v, Cov_regul = \<lambda>a b. 1, CovOp = \<lambda>v. v,
             Cov_solve = \<lambda>c b r. b, CrossCovOp = \<lambda>a b. a, FiniteOp = \<lambda>a b m. m\<rparr>
     (\<lambda>B. let a = rows B ! 0 ! 0; b = rows B ! 0 ! 1; c = rows B ! 1 ! 0; d = rows B ! 1 ! 1
          in \<lparr>nrows = 2, ncols = 2,
              rows = [[d / (a * d - b * c), - b / (a * d - b * c)],
                      [- c / (a * d - b * c), a / (a * d - b * c)]]\<rparr>)
     \<lparr>shape = [2, 2], data = [2, 1, 1, 2]\<rparr> \<lparr>shape = [2, 2], data = [1, 0, 0, 1]\<rparr>
     (Some \<lparr>shape = [2], data = [1, 2]\<rparr>) =
   Inr \<lparr>shape = [2, 2], data = [4 / 11, - 1 / 11, - 1 / 11, 3 / 11]\<rparr>"
proof -
  let ?E = "\<lparr>len = \<lambda>v. hd (shape v), inner = \<lambda>v. v, Cov_regul = \<lambda>a b. 1, CovOp = \<lambda>v. v,
             Cov_solve = \<lambda>c b r. b, CrossCovOp = \<lambda>a b. a, FiniteOp = \<lambda>a b m. m\<rparr>
            :: ndarray rkhs"
  let ?inv = "\<lambda>B. let a = rows B ! 0 ! 0; b = rows B ! 0 ! 1; c = rows B ! 1 ! 0; d = rows B ! 1 ! 1
          in \<lparr>nrows = 2, ncols = 2,
              rows = [[d / (a * d - b * c), - b / (a * d - b * c)],
                      [- c / (a * d - b * c), a / (a * d - b * c)]]\<rparr>"
  let ?inp = "\<lparr>shape = [2, 2], data = [2, 1, 1, 2]\<rparr>"
  let ?outp = "\<lparr>shape = [2, 2], data = [1, 0, 0, 1]\<rparr>"
  let ?K = "\<lparr>nrows = 2, ncols = 2, rows = [[2, 1], [1, 2]]\<rparr>"
  have K: "wf_matrix ?K" "nrows ?K = len ?E ?inp" "ncols ?K = len ?E ?inp"
    and i: "inner ?E ?inp = nd_of_matrix ?K"
    by (simp_all add: wf_matrix_def nd_of_matrix_def)
  have r1: "ridge ?K 2 (\<lambda>j. 1) = \<lparr>nrows = 2, ncols = 2, rows = [[3, 1], [1, 3]]\<rparr>"
    by (simp add: ridge_def table_def upt_conv_Cons numeral_2_eq_2)
  have r2: "ridge ?K 2 (\<lambda>j. [1, 2] ! j) = \<lparr>nrows = 2, ncols = 2, rows = [[3, 1], [1, 4]]\<rparr>"
    by (simp add: ridge_def table_def upt_conv_Cons numeral_2_eq_2)
  have l: "len ?E ?inp = 2"
    by simp
  have c: "Cov_regul ?E 1 2 = 1"
    by simp
  note th = RidgeCmo_operator [where E = ?E and inp_feat = ?inp and K = ?K and linalg_inv = ?inv
      and outp_feat = ?outp and xs = "[1, 2]" and x = 0, OF K i]
  from th [unfolded l c r1 r2] show ?thesis
    by (simp add: Let_def)
qed

section \<open>Validation of the regularisation\<close>

text \<open>
  Claim C7 says that every \<open>regul\<close> whose squeezed form is neither a scalar nor a
  vector of length \<open>len(inp_feat)\<close> fails the assertion.  The assertion compares only
  the first axis of the squeezed array: with two input features a \<open>regul\<close> of shape
  \<open>(2, 2)\<close> passes it, and \<open>Cmo\<close> and \<open>RidgeCmo\<close> return an operator.
\<close>

theorem regul_assertion_matrix_accepted:
  "regul_assert \<lparr>shape = [2, 2], data = [1, 2, 3, 4]\<rparr> 2 \<and>
   Cmo \<lparr>len = \<lambda>v. hd (shape v), inner = \<lambda>v. v, Cov_regul = \<lambda>a b. 1, CovOp = \<lambda>v. v,
         Cov_solve = \<lambda>c b r. b, CrossCovOp = \<lambda>a b. a, FiniteOp = \<lambda>a b m. m\<rparr>
     \<lparr>shape = [2, 2], data = [2, 1, 1, 2]\<rparr> \<lparr>shape = [2, 2], data = [1, 0, 0, 1]\<rparr>
     (Some \<lparr>shape = [2, 2], data = [1, 2, 3, 4]\<rparr>) = Inr \<lparr>shape = [2, 2], data = [2, 1, 1, 2]\<rparr> \<and>
   RidgeCmo \<lparr>len = \<lambda>v. hd (shape v), inner = \<lambda>v. v, Cov_regul = \<lambda>a b. 1, CovOp = \<lambda>v. v,
         Cov_solve = \<lambda>c b r. b, CrossCovOp = \<lambda>a b. a, FiniteOp = \<lambda>a b m. m\<rparr>
     (\<lambda>B. B)
     \<lparr>shape = [2, 2], data = [2, 1, 1, 2]\<rparr> \<lparr>shape = [2, 2], data = [1, 0, 0, 1]\<rparr>
     (Some \<lparr>shape = [2, 2], data = [1, 2, 3, 4]\<rparr>) = Inr \<lparr>shape = [2, 2], data = [3, 1, 1, 6]\<rparr>"
  by code_simp

lemma prod_list_eq_1:
  "\<forall>d\<in>set ds. d \<noteq> (1::nat) \<Longrightarrow> prod_list ds = 1 \<longleftrightarrow> ds = []"
  by (cases ds) auto

lemma regul_assert_iff:
  "regul_assert r n \<longleftrightarrow>
   filter (\<lambda>d. d \<noteq> 1) (shape r) = [] \<or> take 1 (filter (\<lambda>d. d \<noteq> 1) (shape r)) = [n]"
proof -
  have "\<forall>d\<in>set (filter (\<lambda>d. d \<noteq> 1) (shape r)). d \<noteq> 1"
    by simp
  from prod_list_eq_1 [OF this] show ?thesis
    by (auto simp: regul_assert_def squeeze_def nd_size_def split: list.splits)
qed

lemma RidgeCmo_no_assertion:
  "regul_assert r (len E inp_feat) \<Longrightarrow>
   RidgeCmo E linalg_inv inp_feat outp_feat (Some r) \<noteq> Inl AssertionError"
  by (simp add: RidgeCmo_def err_bind_def nd_binop_def nd_linalg_inv_def
      split: sum.splits option.splits list.splits)

text \<open>
  Claim C7, as the code has it.  For each of \<open>Cmo\<close>, \<open>RidgeCmo\<close> and \<open>Cdo\<close>: a
  supplied \<open>regul\<close> whose squeezed form has more than one entry (or none) and a first
  axis other than \<open>len(inp_feat)\<close> gives an assertion failure, whatever the solvers and
  the inversion kernel are, so before any numerical work; any other \<open>regul\<close> passes
  the assertion.  In particular a scalar passes, and a vector of length \<open>m\<close> passes
  exactly when \<open>m = 1\<close> or \<open>m = len(inp_feat)\<close>.
\<close>

theorem regul_assertion:
  "(\<not> regul_assert r (len E inp_feat) \<longrightarrow>
      Cmo E inp_feat outp_feat (Some r) = Inl AssertionError \<and>
      RidgeCmo E linalg_inv inp_feat outp_feat (Some r) = Inl AssertionError \<and>
      Cdo E inp_feat outp_feat ref_feat (Some r) = Inl AssertionError) \<and>
   (regul_assert r (len E inp_feat) \<longrightarrow>
      Cmo E inp_feat outp_feat (Some r) =
        Inr (CrossCovOp E (Cov_solve E (CovOp E inp_feat) inp_feat (Some r)) outp_feat) \<and>
      RidgeCmo E linalg_inv inp_feat outp_feat (Some r) \<noteq> Inl AssertionError \<and>
      Cdo E inp_feat outp_feat ref_feat (Some r) =
        Inr (Cov_solve E (CovOp E ref_feat)
               (CrossCovOp E (Cov_solve E (CovOp E inp_feat) inp_feat (Some r)) outp_feat)
               (Some r))) \<and>
   (regul_assert r (len E inp_feat) \<longleftrightarrow>
      filter (\<lambda>d. d \<noteq> 1) (shape r) = [] \<or>
      take 1 (filter (\<lambda>d. d \<noteq> 1) (shape r)) = [len E inp_feat]) \<and>
   (shape r = [] \<longrightarrow> regul_assert r (len E inp_feat)) \<and>
   (shape r = [m] \<longrightarrow> (regul_assert r (len E inp_feat) \<longleftrightarrow> m = 1 \<or> m = len E inp_feat))"
proof -
  have bad: "Cmo E inp_feat outp_feat (Some r) = Inl AssertionError \<and>
      RidgeCmo E linalg_inv inp_feat outp_feat (Some r) = Inl AssertionError \<and>
      Cdo E inp_feat outp_feat ref_feat (Some r) = Inl AssertionError"
    if "\<not> regul_assert r (len E inp_feat)"
    using that by (simp add: Cmo_def RidgeCmo_def Cdo_def err_bind_Inl)
  have good: "Cmo E inp_feat outp_feat (Some r) =
        Inr (CrossCovOp E (Cov_solve E (CovOp E inp_feat) inp_feat (Some r)) outp_feat) \<and>
      RidgeCmo E linalg_inv inp_feat outp_feat (Some r) \<noteq> Inl AssertionError \<and>
      Cdo E inp_feat outp_feat ref_feat (Some r) =
        Inr (Cov_solve E (CovOp E ref_feat)
               (CrossCovOp E (Cov_solve E (CovOp E inp_feat) inp_feat (Some r)) outp_feat)
               (Some r))"
    if "regul_assert r (len E inp_feat)"
    using that RidgeCmo_no_assertion [OF that]
    by (simp add: Cmo_def Cdo_def err_bind_Inr)
  have scalar: "regul_assert r (len E inp_feat)" if "shape r = []"
    using that by (simp add: regul_assert_iff)
  have vector: "regul_assert r (len E inp_feat) \<longleftrightarrow> m = 1 \<or> m = len E inp_feat"
    if "shape r = [m]"
    using that by (auto simp: regul_assert_iff)
  from bad good scalar vector regul_assert_iff [of r "len E inp_feat"] show ?thesis
    by blast
qed

theorem regul_assertion_witness:
  "Cmo \<lparr>len = \<lambda>v. hd (shape v), inner = \<lambda>v. v, Cov_regul = \<lambda>a b. 1, CovOp = \<lambda>v. v,
         Cov_solve = \<lambda>c b r. b, CrossCovOp = \<lambda>a b. a, FiniteOp = \<lambda>a b m. m\<rparr>
     \<lparr>shape = [2, 2], data = [2, 1, 1, 2]\<rparr> \<lparr>shape = [2, 2], data = [1, 0, 0, 1]\<rparr>
     (Some \<lparr>shape = [3], data = [1, 2, 3]\<rparr>) = Inl AssertionError \<and>
   RidgeCmo \<lparr>len = \<lambda>v. hd (shape v), inner = \<lambda>v. v, Cov_regul = \<lambda>a b. 1, CovOp = \<lambda>v. v,
         Cov_solve = \<lambda>c b r. b, CrossCovOp = \<lambda>a b. a, FiniteOp = \<lambda>a b m. m\<rparr>
     (\<lambda>B. B)
     \<lparr>shape = [2, 2], data = [2, 1, 1, 2]\<rparr> \<lparr>shape = [2, 2], data = [1, 0, 0, 1]\<rparr>
     (Some \<lparr>shape = [3], data = [1, 2, 3]\<rparr>) = Inl AssertionError \<and>
   Cdo \<lparr>len = \<lambda>v. hd (shape v), inner = \<lambda>v. v, Cov_regul = \<lambda>a b. 1, CovOp = \<lambda>v. v,
         Cov_solve = \<lambda>c b r. b, CrossCovOp = \<lambda>a b. a, FiniteOp = \<lambda>a b m. m\<rparr>
     \<lparr>shape = [2, 2], data = [2, 1, 1, 2]\<rparr> \<lparr>shape = [2, 2], data = [1, 0, 0, 1]\<rparr>
     \<lparr>shape = [2, 2], data = [1, 0, 0, 1]\<rparr>
     (Some \<lparr>shape = [3], data = [1, 2, 3]\<rparr>) = Inl AssertionError \<and>
   Cmo \<lparr>len = \<lambda>v. hd (shape v), inner = \<lambda>v. v, Cov_regul = \<lambda>a b. 1, CovOp = \<lambda>v. v,
         Cov_solve = \<lambda>c b r. b, CrossCovOp = \<lambda>a b. a, FiniteOp = \<lambda>a b m. m\<rparr>
     \<lparr>shape = [2, 2], data = [2, 1, 1, 2]\<rparr> \<lparr>shape = [2, 2], data = [1, 0, 0, 1]\<rparr>
     (Some \<lparr>shape = [2], data = [1, 2]\<rparr>) = Inr \<lparr>shape = [2, 2], data = [2, 1, 1, 2]\<rparr>"
proof -
  let ?E = "\<lparr>len = \<lambda>v. hd (shape v), inner = \<lambda>v. v, Cov_regul = \<lambda>a b. 1, CovOp = \<lambda>v. v,
             Cov_solve = \<lambda>c b r. b, CrossCovOp = \<lambda>a b. a, FiniteOp = \<lambda>a b m. m\<rparr>
            :: ndarray rkhs"
  let ?inp = "\<lparr>shape = [2, 2], data = [2, 1, 1, 2]\<rparr>"
  let ?outp = "\<lparr>shape = [2, 2], data = [1, 0, 0, 1]\<rparr>"
  let ?bad = "\<lparr>shape = [3], data = [1, 2, 3]\<rparr>"
  let ?good = "\<lparr>shape = [2], data = [1, 2]\<rparr>"
  have b: "\<not> regul_assert ?bad (len ?E ?inp)"
    by (simp add: regul_assert_def squeeze_def nd_size_def)
  have g: "regul_assert ?good (len ?E ?inp)"
    by (simp add: regul_assert_def squeeze_def nd_size_def)
  from regul_assertion [where E = ?E and inp_feat = ?inp and outp_feat = ?outp and r = ?bad
      and linalg_inv = "\<lambda>B. B" and ref_feat = ?outp and m = 3] b
  have 1: "Cmo ?E ?inp ?outp (Some ?bad) = Inl AssertionError"
    "RidgeCmo ?E (\<lambda>B. B) ?inp ?outp (Some ?bad) = Inl AssertionError"
    "Cdo ?E ?inp ?outp ?outp (Some ?bad) = Inl AssertionError"
    by blast+
  from regul_assertion [where E = ?E and inp_feat = ?inp and outp_feat = ?outp and r = ?good
      and linalg_inv = "\<lambda>B. B" and ref_feat = ?outp and m = 2] g
  have 2: "Cmo ?E ?inp ?outp (Some ?good) = Inr ?inp"
    by simp
  from 1 2 show ?thesis
    by blast
qed

section \<open>Failures of the inducing set selector\<close>

lemma extract_params_Inr:
  "extract_params N params = Inr (A, lamb) \<Longrightarrow>
   lamb = take N params \<and> nrows A = N \<and> ncols A = N"
  by (auto simp: extract_params_def split: if_splits)

lemma no_positive_count:
  "\<forall>l\<in>set lamb. \<not> 0 < l \<Longrightarrow> filter (\<lambda>b. b) (map (\<lambda>l. l > 0) lamb) = []"
  by (induction lamb) simp_all

lemma inducing_set_none_selected:
  assumes pen: "0 < non_sparse_penalty" and sh: "shape points = [N, d]" and N: "1 < N"
    and ok: "success (run_minimize minimize grad (k points) N non_sparse_penalty)"
    and none: "\<forall>l\<in>set (take N (opt_x (run_minimize minimize grad (k points) N non_sparse_penalty))).
                 \<not> 0 < l"
  shows "isl (inducing_set k minimize grad points non_sparse_penalty)"
proof -
  let ?rv = "run_minimize minimize grad (k points) N non_sparse_penalty"
  show ?thesis
  proof (cases "extract_params N (opt_x ?rv)")
    case (Inl e)
    then show ?thesis
      using pen sh N ok by (simp add: inducing_set_def Let_def err_bind_Inl)
  next
    case (Inr p)
    obtain A lamb where p: "p = (A, lamb)" by (cases p)
    have lamb: "lamb = take N (opt_x ?rv)"
      using extract_params_Inr Inr p by blast
    have m: "filter (\<lambda>b. b) (map (\<lambda>l. l > 0) lamb) = []"
      using none unfolding lamb [symmetric] by (rule no_positive_count)
    show ?thesis
      using pen sh N ok Inr p
      by (simp add: inducing_set_def Let_def err_bind_def m split: sum.splits)
  qed
qed

lemma matmul_defined: "ncols A = nrows B \<Longrightarrow> \<exists>C. matmul A B = Inr C"
  by (simp add: matmul_def)

lemma sym_matmul_defined:
  "ncols S = nrows G \<Longrightarrow> ncols G = ncols S \<Longrightarrow> \<exists>Q. sym_matmul S G = Inr Q"
  by (simp add: sym_matmul_def matmul_def transpose_m_def err_bind_Inr)

lemma inducing_set_none_selected_assert:
  assumes pen: "0 < non_sparse_penalty" and sh: "shape points = [N, d]" and N: "1 < N"
    and ok: "success (run_minimize minimize grad (k points) N non_sparse_penalty)"
    and none: "\<forall>l\<in>set (take N (opt_x (run_minimize minimize grad (k points) N non_sparse_penalty))).
                 \<not> 0 < l"
    and len: "length (opt_x (run_minimize minimize grad (k points) N non_sparse_penalty)) = N + N * N"
    and G: "nrows (k points) = N" "ncols (k points) = N"
  shows "inducing_set k minimize grad points non_sparse_penalty = Inl AssertionError"
proof -
  let ?rv = "run_minimize minimize grad (k points) N non_sparse_penalty"
  let ?A = "\<lparr>nrows = N, ncols = N, rows = chunks N N (drop N (opt_x ?rv))\<rparr>"
  let ?lamb = "take N (opt_x ?rv)"
  have e: "extract_params N (opt_x ?rv) = Inr (?A, ?lamb)"
    using len by (simp add: extract_params_def)
  have m: "filter (\<lambda>b. b) (map (\<lambda>l. l > 0) ?lamb) = []"
    using none by (rule no_positive_count)
  have "ncols ?A = nrows (diag_of ?lamb)"
    using len by (simp add: diag_of_def table_def)
  from matmul_defined [OF this] obtain Al where Al: "matmul ?A (diag_of ?lamb) = Inr Al"
    by blast
  let ?appr = "\<lparr>nrows = N, ncols = N,
      rows = map (\<lambda>i. if map (\<lambda>l. l > 0) ?lamb ! i then rows (identity N) ! i else rows Al ! i)
               [0..<N]\<rparr>"
  have "ncols (msub (identity N) ?appr) = nrows (k points)"
    "ncols (k points) = ncols (msub (identity N) ?appr)"
    by (simp_all add: msub_def identity_def G)
  from sym_matmul_defined [OF this]
  obtain Q where Q: "sym_matmul (msub (identity N) ?appr) (k points) = Inr Q"
    by blast
  show ?thesis
    using pen sh N ok
    by (simp add: inducing_set_def Let_def e err_bind_Inr Al Q m)
qed

text \<open>
  Claim C10.  \<open>inducing_set\<close> fails at once, whatever the kernel and the optimiser
  are, when \<open>non_sparse_penalty\<close> is not positive, when \<open>points\<close> has fewer than 2
  entries along its first axis or is not a 2-d array (an assertion failure; for a 0-d
  array the \<open>TypeError\<close> of \<open>len\<close>); it fails with an assertion failure when the
  optimiser reports no success; and it returns no result when no entry of \<open>lambda\<close> is
  positive: an assertion failure when the optimiser's vector and the Gram matrix have
  the expected sizes.
\<close>

theorem inducing_set_errors:
  "(\<not> 0 < non_sparse_penalty \<longrightarrow>
      inducing_set k minimize grad points non_sparse_penalty = Inl AssertionError) \<and>
   (0 < non_sparse_penalty \<and> shape points = [] \<longrightarrow>
      inducing_set k minimize grad points non_sparse_penalty = Inl TypeError) \<and>
   (0 < non_sparse_penalty \<and> shape points = N # sh \<and> (N \<le> 1 \<or> length sh \<noteq> 1) \<longrightarrow>
      inducing_set k minimize grad points non_sparse_penalty = Inl AssertionError) \<and>
   (0 < non_sparse_penalty \<and> shape points = [N, d] \<and> 1 < N \<and>
    \<not> success (run_minimize minimize grad (k points) N non_sparse_penalty) \<longrightarrow>
      inducing_set k minimize grad points non_sparse_penalty = Inl AssertionError) \<and>
   (0 < non_sparse_penalty \<and> shape points = [N, d] \<and> 1 < N \<and>
    success (run_minimize minimize grad (k points) N non_sparse_penalty) \<and>
    (\<forall>l\<in>set (take N (opt_x (run_minimize minimize grad (k points) N non_sparse_penalty))).
       \<not> 0 < l) \<longrightarrow>
      isl (inducing_set k minimize grad points non_sparse_penalty) \<and>
      (length (opt_x (run_minimize minimize grad (k points) N non_sparse_penalty)) = N + N * N \<and>
       nrows (k points) = N \<and> ncols (k points) = N \<longrightarrow>
         inducing_set k minimize grad points non_sparse_penalty = Inl AssertionError))"
proof -
  have 1: "inducing_set k minimize grad points non_sparse_penalty = Inl AssertionError"
    if "\<not> 0 < non_sparse_penalty"
    using that by (simp add: inducing_set_def)
  have 2: "inducing_set k minimize grad points non_sparse_penalty = Inl TypeError"
    if "0 < non_sparse_penalty \<and> shape points = []"
    using that by (simp add: inducing_set_def)
  have 3: "inducing_set k minimize grad points non_sparse_penalty = Inl AssertionError"
    if "0 < non_sparse_penalty \<and> shape points = N # sh \<and> (N \<le> 1 \<or> length sh \<noteq> 1)"
    using that by (auto simp: inducing_set_def)
  have 4: "inducing_set k minimize grad points non_sparse_penalty = Inl AssertionError"
    if "0 < non_sparse_penalty \<and> shape points = [N, d] \<and> 1 < N \<and>
        \<not> success (run_minimize minimize grad (k points) N non_sparse_penalty)"
    using that by (simp add: inducing_set_def Let_def)
  from 1 2 3 4 inducing_set_none_selected [of non_sparse_penalty points N d minimize grad k]
    inducing_set_none_selected_assert [of non_sparse_penalty points N d minimize grad k]
  show ?thesis
    by blast
qed

theorem inducing_set_errors_witness:
  "inducing_set (\<lambda>p. identity 2) (\<lambda>f init jac bounds. \<lparr>success = True, opt_x = init\<rparr>)
     (\<lambda>f v. Inr v) \<lparr>shape = [2, 1], data = [0, 1]\<rparr> 0 = Inl AssertionError \<and>
   inducing_set (\<lambda>p. identity 2) (\<lambda>f init jac bounds. \<lparr>success = True, opt_x = init\<rparr>)
     (\<lambda>f v. Inr v) \<lparr>shape = [], data = [0]\<rparr> 1 = Inl TypeError \<and>
   inducing_set (\<lambda>p. identity 2) (\<lambda>f init jac bounds. \<lparr>success = True, opt_x = init\<rparr>)
     (\<lambda>f v. Inr v) \<lparr>shape = [1, 2], data = [0, 1]\<rparr> 1 = Inl AssertionError \<and>
   inducing_set (\<lambda>p. identity 2) (\<lambda>f init jac bounds. \<lparr>success = True, opt_x = init\<rparr>)
     (\<lambda>f v. Inr v) \<lparr>shape = [2], data = [0, 1]\<rparr> 1 = Inl AssertionError \<and>
   inducing_set (\<lambda>p. identity 2) (\<lambda>f init jac bounds. \<lparr>success = False, opt_x = init\<rparr>)
     (\<lambda>f v. Inr v) \<lparr>shape = [2, 1], data = [0, 1]\<rparr> 1 = Inl AssertionError \<and>
   inducing_set (\<lambda>p. identity 2)
     (\<lambda>f init jac bounds. \<lparr>success = True, opt_x = [0, 0, 1, 0, 0, 1]\<rparr>)
     (\<lambda>f v. Inr v) \<lparr>shape = [2, 1], data = [0, 1]\<rparr> 1 = Inl AssertionError"
proof -
  let ?k = "\<lambda>p :: ndarray. identity 2"
  let ?g = "\<lambda>(f :: real list \<Rightarrow> error + real) (v :: real list). Inr v :: error + real list"
  let ?ok = "\<lambda>(f :: real list \<Rightarrow> error + real) (init :: real list)
               (jac :: real list \<Rightarrow> error + real list)
               (bounds :: (real option \<times> real option) list). \<lparr>success = True, opt_x = init\<rparr>"
  let ?fail = "\<lambda>(f :: real list \<Rightarrow> error + real) (init :: real list)
               (jac :: real list \<Rightarrow> error + real list)
               (bounds :: (real option \<times> real option) list). \<lparr>success = False, opt_x = init\<rparr>"
  let ?zero = "\<lambda>(f :: real list \<Rightarrow> error + real) (init :: real list)
               (jac :: real list \<Rightarrow> error + real list)
               (bounds :: (real option \<times> real option) list).
               \<lparr>success = True, opt_x = [0, 0, 1, 0, 0, 1]\<rparr>"
  let ?P = "\<lparr>shape = [2, 1], data = [0, 1]\<rparr>"
  have 1: "inducing_set ?k ?ok ?g ?P 0 = Inl AssertionError"
    using inducing_set_errors [of 0 ?k ?ok ?g ?P] by simp
  have 2: "inducing_set ?k ?ok ?g \<lparr>shape = [], data = [0]\<rparr> 1 = Inl TypeError"
    using inducing_set_errors [of 1 ?k ?ok ?g "\<lparr>shape = [], data = [0]\<rparr>"] by simp
  have 3: "inducing_set ?k ?ok ?g \<lparr>shape = [1, 2], data = [0, 1]\<rparr> 1 = Inl AssertionError"
    using inducing_set_errors [of 1 ?k ?ok ?g "\<lparr>shape = [1, 2], data = [0, 1]\<rparr>" 1 "[2]"]
    by simp
  have 4: "inducing_set ?k ?ok ?g \<lparr>shape = [2], data = [0, 1]\<rparr> 1 = Inl AssertionError"
    using inducing_set_errors [of 1 ?k ?ok ?g "\<lparr>shape = [2], data = [0, 1]\<rparr>" 2 "[]"]
    by simp
  have 5: "inducing_set ?k ?fail ?g ?P 1 = Inl AssertionError"
    using inducing_set_errors [of 1 ?k ?fail ?g ?P 2 "[]" 1]
    by (simp add: run_minimize_def)
  have 6: "inducing_set ?k ?zero ?g ?P 1 = Inl AssertionError"
    using inducing_set_errors [of 1 ?k ?zero ?g ?P 2 "[]" 1]
    by (simp add: run_minimize_def identity_def)
  from 1 2 3 4 5 6 show ?thesis
    by blast
qed

section \<open>Singular and indefinite submatrices\<close>

text \<open>
  Claim C8 says that \<open>invert_submatr\<close> and \<open>cholesky_submatr\<close> fail when a selected
  submatrix is singular or not positive definite.  Neither function checks its
  submatrices and the kernels return an array for every square input: for the Gram
  matrix \<open>[[0, 1], [1, 4]]\<close> and the index row \<open>[0]\<close> the submatrix is \<open>[[0]]\<close>, and
  both functions return a result, an array whose entries are not finite.  The kernels
  here are the inverse and the Cholesky factor on 1-by-1 matrices: the reciprocal,
  not finite at zero, and the square root, not finite unless the entry is positive.
\<close>

theorem singular_submatrix_returns:
  "invert_submatr
     (\<lambda>B. \<lparr>xnrows = nrows B, xncols = ncols B,
           xrows = map (map (\<lambda>v. if v = 0 then None else Some (1 / v))) (rows B)\<rparr>)
     \<lparr>nrows = 2, ncols = 2, rows = [[0, 1], [1, 4]]\<rparr> [[0]] False =
   Inr [\<lparr>xnrows = 1, xncols = 1, xrows = [[None]]\<rparr>] \<and>
   cholesky_submatr
     (\<lambda>B. \<lparr>xnrows = nrows B, xncols = ncols B,
           xrows = map (map (\<lambda>v. if v \<le> 0 then None else Some (sqrt v))) (rows B)\<rparr>)
     \<lparr>nrows = 2, ncols = 2, rows = [[0, 1], [1, 4]]\<rparr> [[0]] True =
   Inr [\<lparr>xnrows = 2, xncols = 2, xrows = [[None, None], [None, None]]\<rparr>]"
proof -
  let ?G = "\<lparr>nrows = 2, ncols = 2, rows = [[0, 1], [1, 4]]\<rparr>"
  let ?Z = "\<lparr>nrows = 1, ncols = 1, rows = [[0]]\<rparr>"
  let ?N = "\<lparr>xnrows = 1, xncols = 1, xrows = [[None]]\<rparr>"
  let ?inv = "\<lambda>B. \<lparr>xnrows = nrows B, xncols = ncols B,
                   xrows = map (map (\<lambda>v. if v = 0 then None else Some (1 / v))) (rows B)\<rparr>"
  let ?chol = "\<lambda>B. \<lparr>xnrows = nrows B, xncols = ncols B,
                    xrows = map (map (\<lambda>v. if v \<le> 0 then None else Some (sqrt v))) (rows B)\<rparr>"
  have sel: "idcs_to_selection_matr (int (nrows ?G)) [[0]] False =
             Inr [\<lparr>nrows = 1, ncols = 2, rows = [[1, 0]]\<rparr>]"
    by code_simp
  have sub: "sym_matmul_fixed_inp [\<lparr>nrows = 1, ncols = 2, rows = [[1, 0]]\<rparr>] ?G = Inr [?Z]"
    by code_simp
  have fill: "sym_matmul_variable_inp (map transpose_m [\<lparr>nrows = 1, ncols = 2, rows = [[1, 0]]\<rparr>])
                [?N] = Inr [\<lparr>xnrows = 2, xncols = 2, xrows = [[None, None], [None, None]]\<rparr>]"
    by code_simp
  have i: "vinvert ?inv [?Z] = Inr [?N]"
    by (simp add: vinvert_def)
  have c: "vcholesky ?chol [?Z] = Inr [?N]"
    by (simp add: vcholesky_def)
  show ?thesis
    by (simp only: invert_submatr_def cholesky_submatr_def sel sub i c fill err_bind_Inr
          if_True if_False)
qed

lemma cholesky_submatr_eq:
  "cholesky_submatr f gram idcs zerofill = invert_submatr f gram idcs zerofill"
  by (simp add: cholesky_submatr_def invert_submatr_def vcholesky_def vinvert_def)

text \<open>
  Claim C8, as the code has it.  The batched kernels \<open>vinvert\<close> and \<open>vcholesky\<close>
  return the kernel's array for every batch of square matrices, singular or not
  positive definite entries included; \<open>invert_submatr\<close> and \<open>cholesky_submatr\<close> add no
  check, so for a square Gram matrix and indices in range they return the kernel's
  results on the selected submatrices, and an array of the full shape for every split
  when \<open>zerofill\<close> is set and the kernel keeps the shape of its argument.
\<close>

theorem submatr_kernels_return:
  "(list_all (\<lambda>B. nrows B = ncols B) batch \<longrightarrow>
      vinvert linalg_inv batch = Inr (map linalg_inv batch) \<and>
      vcholesky cholesky batch = Inr (map cholesky batch)) \<and>
   (wf_matrix gram \<and> ncols gram = nrows gram \<and>
    (\<forall>vi\<in>set train_idcs. \<forall>c\<in>set vi. 0 \<le> sint c \<and> sint c < int (nrows gram)) \<longrightarrow>
      invert_submatr linalg_inv gram train_idcs False =
        Inr (map (\<lambda>vi. linalg_inv (submatr gram (idx_of vi))) train_idcs) \<and>
      cholesky_submatr cholesky gram train_idcs False =
        Inr (map (\<lambda>vi. cholesky (submatr gram (idx_of vi))) train_idcs) \<and>
      ((\<forall>vi\<in>set train_idcs. xnrows (linalg_inv (submatr gram (idx_of vi))) = length vi \<and>
                               xncols (linalg_inv (submatr gram (idx_of vi))) = length vi) \<longrightarrow>
         (\<exists>R. invert_submatr linalg_inv gram train_idcs True = Inr R \<and>
              length R = length train_idcs)) \<and>
      ((\<forall>vi\<in>set train_idcs. xnrows (cholesky (submatr gram (idx_of vi))) = length vi \<and>
                               xncols (cholesky (submatr gram (idx_of vi))) = length vi) \<longrightarrow>
         (\<exists>R. cholesky_submatr cholesky gram train_idcs True = Inr R \<and>
              length R = length train_idcs)))"
proof -
  have k: "vinvert linalg_inv batch = Inr (map linalg_inv batch) \<and>
           vcholesky cholesky batch = Inr (map cholesky batch)"
    if "list_all (\<lambda>B. nrows B = ncols B) batch"
    using that by (simp add: vinvert_def vcholesky_def)
  have s: "invert_submatr linalg_inv gram train_idcs False =
        Inr (map (\<lambda>vi. linalg_inv (submatr gram (idx_of vi))) train_idcs) \<and>
      cholesky_submatr cholesky gram train_idcs False =
        Inr (map (\<lambda>vi. cholesky (submatr gram (idx_of vi))) train_idcs) \<and>
      ((\<forall>vi\<in>set train_idcs. xnrows (linalg_inv (submatr gram (idx_of vi))) = length vi \<and>
                               xncols (linalg_inv (submatr gram (idx_of vi))) = length vi) \<longrightarrow>
         (\<exists>R. invert_submatr linalg_inv gram train_idcs True = Inr R \<and>
              length R = length train_idcs)) \<and>
      ((\<forall>vi\<in>set train_idcs. xnrows (cholesky (submatr gram (idx_of vi))) = length vi \<and>
                               xncols (cholesky (submatr gram (idx_of vi))) = length vi) \<longrightarrow>
         (\<exists>R. cholesky_submatr cholesky gram train_idcs True = Inr R \<and>
              length R = length train_idcs))"
    if g: "wf_matrix gram \<and> ncols gram = nrows gram \<and>
           (\<forall>vi\<in>set train_idcs. \<forall>c\<in>set vi. 0 \<le> sint c \<and> sint c < int (nrows gram))"
  proof -
    from g have gram: "wf_matrix gram" "ncols gram = nrows gram"
      and idx: "\<forall>vi\<in>set train_idcs. \<forall>c\<in>set vi. 0 \<le> sint c \<and> sint c < int (nrows gram)"
      by blast+
    show ?thesis
      unfolding cholesky_submatr_eq
      using invert_submatr_raw [OF gram idx] invert_submatr_zerofill_returns [OF gram idx]
      by blast
  qed
  from k s show ?thesis
    by blast
qed

theorem submatr_kernels_return_witness:
  "vinvert (\<lambda>B. \<lparr>xnrows = nrows B, xncols = ncols B,
                 xrows = map (map (\<lambda>v. if v = 0 then None else Some (1 / v))) (rows B)\<rparr>)
     [\<lparr>nrows = 1, ncols = 1, rows = [[0]]\<rparr>, \<lparr>nrows = 1, ncols = 1, rows = [[2]]\<rparr>] =
   Inr [\<lparr>xnrows = 1, xncols = 1, xrows = [[None]]\<rparr>,
        \<lparr>xnrows = 1, xncols = 1, xrows = [[Some (1 / 2)]]\<rparr>] \<and>
   invert_submatr (\<lambda>B. \<lparr>xnrows = nrows B, xncols = ncols B,
                 xrows = map (map (\<lambda>v. if v = 0 then None else Some (1 / v))) (rows B)\<rparr>)
     \<lparr>nrows = 2, ncols = 2, rows = [[0, 1], [1, 4]]\<rparr> [[0], [1]] False =
   Inr [\<lparr>xnrows = 1, xncols = 1, xrows = [[None]]\<rparr>,
        \<lparr>xnrows = 1, xncols = 1, xrows = [[Some (1 / 4)]]\<rparr>] \<and>
   cholesky_submatr (\<lambda>B. \<lparr>xnrows = nrows B, xncols = ncols B,
                 xrows = map (map (\<lambda>v. if v \<le> 0 then None else Some (sqrt v))) (rows B)\<rparr>)
     \<lparr>nrows = 2, ncols = 2, rows = [[- 4, 1], [1, 4]]\<rparr> [[0], [1]] False =
   Inr [\<lparr>xnrows = 1, xncols = 1, xrows = [[None]]\<rparr>,
        \<lparr>xnrows = 1, xncols = 1, xrows = [[Some 2]]\<rparr>] \<and>
   (\<exists>R. invert_submatr (\<lambda>B. \<lparr>xnrows = nrows B, xncols = ncols B,
                 xrows = map (map (\<lambda>v. if v = 0 then None else Some (1 / v))) (rows B)\<rparr>)
          \<lparr>nrows = 2, ncols = 2, rows = [[0, 1], [1, 4]]\<rparr> [[0], [1]] True = Inr R \<and>
        length R = 2)"
proof -
  let ?inv = "\<lambda>B. \<lparr>xnrows = nrows B, xncols = ncols B,
                   xrows = map (map (\<lambda>v. if v = 0 then None else Some (1 / v))) (rows B)\<rparr>"
  let ?chol = "\<lambda>B. \<lparr>xnrows = nrows B, xncols = ncols B,
                    xrows = map (map (\<lambda>v. if v \<le> 0 then None else Some (sqrt v))) (rows B)\<rparr>"
  let ?batch = "[\<lparr>nrows = 1, ncols = 1, rows = [[0]]\<rparr>, \<lparr>nrows = 1, ncols = 1, rows = [[2]]\<rparr>]"
  let ?G = "\<lparr>nrows = 2, ncols = 2, rows = [[0, 1], [1, 4]]\<rparr>"
  let ?H = "\<lparr>nrows = 2, ncols = 2, rows = [[- 4, 1], [1, 4]]\<rparr>"
  let ?idcs = "[[0], [1]] :: int32 list list"
  have b: "list_all (\<lambda>B. nrows B = ncols B) ?batch"
    by simp
  have g: "wf_matrix ?G \<and> ncols ?G = nrows ?G \<and>
           (\<forall>vi\<in>set ?idcs. \<forall>c\<in>set vi. 0 \<le> sint c \<and> sint c < int (nrows ?G))"
    by (simp add: wf_matrix_def)
  have h: "wf_matrix ?H \<and> ncols ?H = nrows ?H \<and>
           (\<forall>vi\<in>set ?idcs. \<forall>c\<in>set vi. 0 \<le> sint c \<and> sint c < int (nrows ?H))"
    by (simp add: wf_matrix_def)
  have sh: "\<forall>vi\<in>set ?idcs. xnrows (?inv (submatr ?G (idx_of vi))) = length vi \<and>
                            xncols (?inv (submatr ?G (idx_of vi))) = length vi"
    by (simp add: submatr_def idx_of_def)
  have s4: "sqrt 4 = 2"
    using real_sqrt_abs [of 2] by simp
  have 1: "vinvert ?inv ?batch = Inr (map ?inv ?batch)"
    using submatr_kernels_return [where batch = ?batch and linalg_inv = ?inv] b by blast
  have 2: "invert_submatr ?inv ?G ?idcs False =
           Inr (map (\<lambda>vi. ?inv (submatr ?G (idx_of vi))) ?idcs)"
    using submatr_kernels_return [where gram = ?G and train_idcs = ?idcs and linalg_inv = ?inv] g
    by blast
  have 3: "cholesky_submatr ?chol ?H ?idcs False =
           Inr (map (\<lambda>vi. ?chol (submatr ?H (idx_of vi))) ?idcs)"
    using submatr_kernels_return [where gram = ?H and train_idcs = ?idcs and cholesky = ?chol] h
    by blast
  have 4: "\<exists>R. invert_submatr ?inv ?G ?idcs True = Inr R \<and> length R = length ?idcs"
    using submatr_kernels_return [where gram = ?G and train_idcs = ?idcs and linalg_inv = ?inv]
      g sh
    by blast
  have len: "length ?idcs = 2"
    by simp
  have 5: "\<exists>R. invert_submatr ?inv ?G ?idcs True = Inr R \<and> length R = 2"
    using 4 unfolding len .
  show ?thesis
    unfolding 1 2 3 using 5 by (simp add: submatr_def idx_of_def s4)
qed

end
